theory Spec2Isabelle
  imports Complex_Main "HOL-Library.Log_Nat"
begin

section \<open>GridList: column count and cell width\<close>

subsection \<open>JavaScript numbers\<close>

text \<open>
  A JavaScript number is an IEEE 754 binary64 value: \<open>Fin q\<close> is the finite value \<open>q\<close>
  (\<open>Fin 0\<close> the positive zero), and the negative zero, the two infinities and NaN stand
  beside it. The arithmetic of \<^verbatim>\<open>recalculate\<close> (\<^verbatim>\<open>-\<close>, \<^verbatim>\<open>/\<close> and \<^verbatim>\<open>Math.ceil\<close>) computes the
  exact result and rounds it to the nearest double, ties to the even significand.
\<close>

datatype jsnum = Fin rat | NegZero | PosInf | NegInf | NaN

text \<open>The integer nearest to \<open>x\<close>, the even one of the two when \<open>x\<close> lies halfway.\<close>

definition round_half_even :: "rat \<Rightarrow> int" where
  "round_half_even x =
     (let f = \<lfloor>x\<rfloor>; r = x - of_int f in
      if r < 1 / 2 then f else if 1 / 2 < r then f + 1 else if even f then f else f + 1)"

text \<open>
  Every finite double is an integer multiple of \<open>2 ^ - 1074\<close>, the least positive
  (subnormal) double. A magnitude is rounded in these units: \<open>round_scaled s\<close> keeps the
  53 leading bits of \<open>s\<close>, so it rounds to a multiple of \<open>2 ^ binade_shift s\<close>, which is
  \<open>1\<close> for \<open>s < 2 ^ 53\<close> (the subnormal numbers and the first normal binade).
\<close>

definition subnormal_bits :: nat where
  "subnormal_bits = 1074"

definition binade_shift :: "rat \<Rightarrow> nat" where
  "binade_shift s = nat (bitlen \<lfloor>s\<rfloor> - 53)"

definition round_scaled :: "rat \<Rightarrow> int" where
  "round_scaled s = round_half_even (s / 2 ^ binade_shift s) * 2 ^ binade_shift s"

text \<open>
  The double nearest to the exact result \<open>q\<close> of an operation: an infinity from
  \<open>2 ^ 1024\<close> on (after rounding), a zero of the sign of \<open>q\<close> when the magnitude rounds
  to nothing.
\<close>

definition to_double :: "rat \<Rightarrow> jsnum" where
  "to_double q =
     (let n = round_scaled (\<bar>q\<bar> * 2 ^ subnormal_bits) in
      if 2 ^ (1024 + subnormal_bits) \<le> n then (if q < 0 then NegInf else PosInf)
      else if n = 0 then (if q < 0 then NegZero else Fin 0)
      else Fin ((if q < 0 then - 1 else 1) * of_int n / 2 ^ subnormal_bits))"

fun infinite_num :: "jsnum \<Rightarrow> bool" where
  "infinite_num PosInf = True"
| "infinite_num NegInf = True"
| "infinite_num _ = False"

fun zero_num :: "jsnum \<Rightarrow> bool" where
  "zero_num (Fin q) = (q = 0)"
| "zero_num NegZero = True"
| "zero_num _ = False"

fun sign_bit :: "jsnum \<Rightarrow> bool" where
  "sign_bit (Fin q) = (q < 0)"
| "sign_bit NegZero = True"
| "sign_bit NegInf = True"
| "sign_bit _ = False"

text \<open>The value of a finite number; both zeros have the value \<open>0\<close>.\<close>

fun finite_value :: "jsnum \<Rightarrow> rat" where
  "finite_value (Fin q) = q"
| "finite_value _ = 0"

definition signed_zero :: "bool \<Rightarrow> jsnum" where
  "signed_zero negative = (if negative then NegZero else Fin 0)"

definition signed_infinity :: "bool \<Rightarrow> jsnum" where
  "signed_infinity negative = (if negative then NegInf else PosInf)"

text \<open>
  \<^verbatim>\<open>x - y\<close>. The difference of two equal infinities is NaN; an exact difference of zero
  is the positive zero, except for \<^verbatim>\<open>-0 - 0\<close>.
\<close>

definition js_sub :: "jsnum \<Rightarrow> jsnum \<Rightarrow> jsnum" where
  "js_sub x y =
     (if x = NaN \<or> y = NaN then NaN
      else if infinite_num x then (if x = y then NaN else x)
      else if infinite_num y then signed_infinity (\<not> sign_bit y)
      else if finite_value x - finite_value y = 0
        then signed_zero (x = NegZero \<and> y = Fin 0)
      else to_double (finite_value x - finite_value y))"

text \<open>
  \<^verbatim>\<open>x / y\<close>. \<^verbatim>\<open>Infinity / Infinity\<close> and \<^verbatim>\<open>0 / 0\<close> are NaN; division by a zero gives an
  infinity and division by an infinity a zero, of the sign of the two operands; any other
  quotient is rounded.
\<close>

definition js_div :: "jsnum \<Rightarrow> jsnum \<Rightarrow> jsnum" where
  "js_div x y =
     (if x = NaN \<or> y = NaN then NaN
      else if infinite_num x
        then (if infinite_num y then NaN else signed_infinity (sign_bit x \<noteq> sign_bit y))
      else if infinite_num y then signed_zero (sign_bit x \<noteq> sign_bit y)
      else if zero_num y
        then (if zero_num x then NaN else signed_infinity (sign_bit x \<noteq> sign_bit y))
      else if zero_num x then signed_zero (sign_bit x \<noteq> sign_bit y)
      else to_double (finite_value x / finite_value y))"

text \<open>\<^verbatim>\<open>Math.ceil(x)\<close>: a result of zero keeps the sign of a negative argument.\<close>

fun js_ceil :: "jsnum \<Rightarrow> jsnum" where
  "js_ceil (Fin q) = (if \<lceil>q\<rceil> = 0 \<and> q < 0 then NegZero else Fin (of_int \<lceil>q\<rceil>))"
| "js_ceil NegZero = NegZero"
| "js_ceil PosInf = PosInf"
| "js_ceil NegInf = NegInf"
| "js_ceil NaN = NaN"

text \<open>\<^verbatim>\<open>x <= y\<close>: false when either side is NaN; the two zeros are equal.\<close>

fun js_le :: "jsnum \<Rightarrow> jsnum \<Rightarrow> bool" where
  "js_le NaN y = False"
| "js_le x NaN = False"
| "js_le NegInf y = True"
| "js_le x PosInf = True"
| "js_le PosInf y = False"
| "js_le x NegInf = False"
| "js_le x y = (finite_value x \<le> finite_value y)"

subsection \<open>The component\<close>

text \<open>The \<^verbatim>\<open>GridListSize\<close> interface.\<close>

record GridListSize =
  columns :: jsnum
  cellWidth :: jsnum

text \<open>
  The measures of the DOM element behind \<^verbatim>\<open>ref.current\<close> that \<^verbatim>\<open>recalculate\<close> reads; the
  DOM gives them as integers, each of them a double.
\<close>

record element =
  offsetWidth :: int
  offsetHeight :: int
  scrollHeight :: int

text \<open>
  The props read by \<^verbatim>\<open>recalculate\<close>; \<open>defaultProps\<close> are the component's defaults.
\<close>

record GridListProps =
  maxCellSize :: jsnum
  containerPadding :: jsnum

definition defaultProps :: GridListProps where
  "defaultProps = \<lparr>maxCellSize = Fin 150, containerPadding = Fin 16\<rparr>"

text \<open>The initial \<^verbatim>\<open>useState\<close> value when no \<^verbatim>\<open>defaultSize\<close> is given.\<close>

definition initialGridSize :: "GridListProps \<Rightarrow> GridListSize" where
  "initialGridSize props = \<lparr>columns = Fin (- 1), cellWidth = maxCellSize props\<rparr>"

text \<open>
  The local \<^verbatim>\<open>width\<close> of \<^verbatim>\<open>recalculate\<close>: \<^verbatim>\<open>offsetWidth - containerPadding\<close>, less the
  scrollbar width when \<^verbatim>\<open>offsetHeight < scrollHeight\<close>. \<^verbatim>\<open>getScrollbarWidth()\<close> lives in a
  module of its own; its result is the parameter \<open>scrollbarWidth\<close>, a whole number of
  pixels.
\<close>

definition effectiveWidth :: "GridListProps \<Rightarrow> int \<Rightarrow> element \<Rightarrow> jsnum" where
  "effectiveWidth props scrollbarWidth el =
     (let width = js_sub (Fin (of_int (offsetWidth el))) (containerPadding props)
      in if offsetHeight el < scrollHeight el
         then js_sub width (Fin (of_int scrollbarWidth)) else width)"

text \<open>
  \<^verbatim>\<open>recalculate\<close>: with no mounted element (\<^verbatim>\<open>!ref.current\<close>) the grid size state is left
  as it is; otherwise \<^verbatim>\<open>setGridSize\<close> replaces it.
\<close>

definition recalculate ::
  "GridListProps \<Rightarrow> int \<Rightarrow> element option \<Rightarrow> GridListSize \<Rightarrow> GridListSize" where
  "recalculate props scrollbarWidth ref_current gridSize =
     (case ref_current of
        None \<Rightarrow> gridSize
      | Some el \<Rightarrow>
          (let width = effectiveWidth props scrollbarWidth el;
               cols = js_ceil (js_div width (maxCellSize props))
           in \<lparr>columns = cols, cellWidth = js_div width cols\<rparr>))"


section \<open>Merged event handlers\<close>

text \<open>
  The hooks below wrap the event handlers supplied by the caller. A handler of the
  caller is an opaque value of type \<open>'h\<close>; an optional handler is an \<open>'h option\<close>. What a
  handler of a hook does is the list of its effects in program order: the call of the
  caller's handler, the calls on the event object, and every call and assignment that
  changes the state of the widget.
\<close>

datatype timer = MouseTimer | KeyboardTimer | TouchTimer

datatype 'h effect =
    Callback 'h
  | PreventDefault
  | StopPropagation
  | Click
  | Create
  | Release
  | Cancel bool
  | SetInitiated "string option"
  | SetEstimatedPosition
  | ShowTooltip
  | HideTooltip
  | Start timer
  | Stop timer
  | HoverModeEnable
  | HoverModeStartDisableTimer
  | SelectionEmpty
  | SetTouched bool
  | SetWindowBlurred bool
  | RequestAnimationFrame
  | RemoveTouchendListener

text \<open>The names of the handler props that the hooks merge.\<close>

datatype handler_name =
    OnKeyDown | OnKeyUp | OnMouseDown | OnMouseUp | OnMouseEnter | OnMouseLeave
  | OnTouchStart | OnTouchMove | OnTouchEnd | OnClick | OnFocus | OnBlur | OnContextMenu

text \<open>\<^verbatim>\<open>if (callback) { callback(event); }\<close>\<close>

definition callback :: "'h option \<Rightarrow> 'h effect list" where
  "callback cb = (case cb of None \<Rightarrow> [] | Some h \<Rightarrow> [Callback h])"

text \<open>
  What a hook returns for one handler prop: the handler of the caller as it was given
  (possibly \<^verbatim>\<open>undefined\<close>), or the hook's own merged handler.
\<close>

datatype 'h returned = Provided "'h option" | Merged

text \<open>Every effect but the call of the caller's handler.\<close>

fun internal :: "'h effect \<Rightarrow> bool" where
  "internal (Callback h) = False"
| "internal _ = True"


section \<open>useKeyboardClickPolyfill\<close>

text \<open>The two properties of the keyboard event that the handler reads.\<close>

record KeyboardEvent =
  key :: string
  tagName :: string

text \<open>
  \<^verbatim>\<open>handleKeyDown\<close> of the polyfill; \<^verbatim>\<open>ref.current\<close> holds the current \<^verbatim>\<open>onKeyDown\<close> and
  \<^verbatim>\<open>disableSpacebarClick\<close>.
\<close>

definition polyfill_handleKeyDown :: "'h option \<Rightarrow> bool \<Rightarrow> KeyboardEvent \<Rightarrow> 'h effect list" where
  "polyfill_handleKeyDown onKeyDown disableSpacebarClick event =
     callback onKeyDown @
     (let isSpace = (key event = '' '') in
      if (key event \<noteq> ''Enter'' \<and> \<not> isSpace)
         \<or> tagName event = ''BUTTON''
         \<or> (tagName event = ''A'' \<and> isSpace)
         \<or> (isSpace \<and> disableSpacebarClick)
      then []
      else (if isSpace then [PreventDefault] else []) @ [StopPropagation, Click])"

definition useKeyboardClickPolyfill :: "'h option \<Rightarrow> bool \<Rightarrow> bool \<Rightarrow> 'h returned" where
  "useKeyboardClickPolyfill onKeyDown disabled disableSpacebarClick =
     (if disabled then Provided onKeyDown else Merged)"

text \<open>A keydown event on the element that carries the returned handler.\<close>

definition polyfill_keydown :: "'h option \<Rightarrow> bool \<Rightarrow> bool \<Rightarrow> KeyboardEvent \<Rightarrow> 'h effect list" where
  "polyfill_keydown onKeyDown disabled disableSpacebarClick event =
     (case useKeyboardClickPolyfill onKeyDown disabled disableSpacebarClick of
        Provided cb \<Rightarrow> callback cb
      | Merged \<Rightarrow> polyfill_handleKeyDown onKeyDown disableSpacebarClick event)"


section \<open>useRippleHandlers\<close>

text \<open>
  The options of the hook. \<open>create\<close>, \<open>release\<close> and \<open>cancel\<close> are supplied by the caller
  and act on a ripple state of type \<open>'r\<close> that the hook never sees; \<open>'e\<close> is the type of
  the event objects.
\<close>

record ('h, 'e, 'r) Options =
  create :: "'e \<Rightarrow> 'r \<Rightarrow> 'r"
  release :: "'e \<Rightarrow> 'r \<Rightarrow> 'r"
  cancel :: "bool \<Rightarrow> 'r \<Rightarrow> 'r"
  handlers :: "handler_name \<Rightarrow> 'h option"
  disabled :: bool
  disableRipple :: bool
  disableProgrammaticRipple :: bool

text \<open>
  The nine memoized handlers of the hook, by the name of their prop. \<open>targetIsActive\<close> is
  \<^verbatim>\<open>document.activeElement === event.currentTarget\<close>, read by \<^verbatim>\<open>onClick\<close> only. The hook has
  no handler under the other four names.
\<close>

fun ripple_handler ::
  "('h, 'e, 'r) Options \<Rightarrow> handler_name \<Rightarrow> bool \<Rightarrow> 'h effect list" where
  "ripple_handler opts OnKeyDown targetIsActive = callback (handlers opts OnKeyDown) @ [Create]"
| "ripple_handler opts OnKeyUp targetIsActive = callback (handlers opts OnKeyUp) @ [Release]"
| "ripple_handler opts OnMouseDown targetIsActive = callback (handlers opts OnMouseDown) @ [Create]"
| "ripple_handler opts OnMouseUp targetIsActive = callback (handlers opts OnMouseUp) @ [Release]"
| "ripple_handler opts OnMouseLeave targetIsActive =
     callback (handlers opts OnMouseLeave) @ [Cancel True]"
| "ripple_handler opts OnTouchStart targetIsActive =
     callback (handlers opts OnTouchStart) @ [Create]"
| "ripple_handler opts OnTouchMove targetIsActive =
     callback (handlers opts OnTouchMove) @ [Cancel False]"
| "ripple_handler opts OnTouchEnd targetIsActive = callback (handlers opts OnTouchEnd) @ [Release]"
| "ripple_handler opts OnClick targetIsActive =
     callback (handlers opts OnClick) @
     (if disableProgrammaticRipple opts \<or> targetIsActive then [] else [Create])"
| "ripple_handler opts OnMouseEnter targetIsActive = []"
| "ripple_handler opts OnFocus targetIsActive = []"
| "ripple_handler opts OnBlur targetIsActive = []"
| "ripple_handler opts OnContextMenu targetIsActive = []"

text \<open>The keys of the object that the hook returns.\<close>

definition ripple_handler_names :: "handler_name list" where
  "ripple_handler_names =
     [OnKeyDown, OnKeyUp, OnMouseDown, OnMouseUp, OnMouseLeave,
      OnTouchStart, OnTouchMove, OnTouchEnd, OnClick]"

text \<open>The returned object, as a map from its keys.\<close>

definition useRippleHandlers ::
  "('h, 'e, 'r) Options \<Rightarrow> handler_name \<Rightarrow> 'h returned option" where
  "useRippleHandlers opts name =
     (let is_disabled = (disabled opts \<or> disableRipple opts) in
      if name \<notin> set ripple_handler_names then None
      else if name = OnClick then
        Some (if is_disabled \<or> disableProgrammaticRipple opts
              then Provided (handlers opts OnClick) else Merged)
      else Some (if is_disabled then Provided (handlers opts name) else Merged))"

text \<open>The effects of an event on the element that carries the returned handlers.\<close>

definition ripple_event ::
  "('h, 'e, 'r) Options \<Rightarrow> handler_name \<Rightarrow> bool \<Rightarrow> 'h effect list" where
  "ripple_event opts name targetIsActive =
     (case useRippleHandlers opts name of
        None \<Rightarrow> []
      | Some (Provided cb) \<Rightarrow> callback cb
      | Some Merged \<Rightarrow> ripple_handler opts name targetIsActive)"

text \<open>
  The ripple state after the effects of a handler that was called with \<open>event\<close>:
  \<^verbatim>\<open>create(event)\<close>, \<^verbatim>\<open>release(event)\<close> and \<^verbatim>\<open>cancel(ease)\<close> are the caller's functions; no
  other effect touches the ripple state.
\<close>

fun ripple_perform :: "('h, 'e, 'r) Options \<Rightarrow> 'e \<Rightarrow> 'h effect \<Rightarrow> 'r \<Rightarrow> 'r" where
  "ripple_perform opts event Create r = create opts event r"
| "ripple_perform opts event Release r = release opts event r"
| "ripple_perform opts event (Cancel ease) r = cancel opts ease r"
| "ripple_perform opts event _ r = r"

definition ripple_process ::
  "('h, 'e, 'r) Options \<Rightarrow> handler_name \<Rightarrow> bool \<Rightarrow> 'e \<Rightarrow> 'r \<Rightarrow> 'r" where
  "ripple_process opts name targetIsActive event r =
     fold (ripple_perform opts event) (ripple_event opts name targetIsActive) r"


text \<open>Modelled from the spec: the ripple state is kept by another hook of the states
  package, outside the modules formalised here. A ripple instance is an ``ephemeral
  animation record created on pointer/keyboard down, released on pointer/keyboard up,
  cancelled on leave''; the state is the list of these records.
\<close>

record 'e ripple =
  startedBy :: 'e
  holding :: bool

text \<open>Modelled from the spec: \<^verbatim>\<open>create\<close> of the hook that
  keeps the ripple state, which is outside the modules formalised here: a record is
  ``created on pointer/keyboard down'', its ``lifetime bounded to a single interaction
  gesture'', and creation is ``idempotent per gesture'': while a ripple of the gesture is
  held, that is until the release or the cancellation that ends the gesture, another
  \<^verbatim>\<open>create\<close> adds nothing.
\<close>

definition createRipple :: "'e \<Rightarrow> 'e ripple list \<Rightarrow> 'e ripple list" where
  "createRipple event rs =
     (if list_ex holding rs then rs else rs @ [\<lparr>startedBy = event, holding = True\<rparr>])"

text \<open>Modelled from the spec: \<^verbatim>\<open>release\<close> of the hook that
  keeps the ripple state, which is outside the modules formalised here: the records are
  ``released on pointer/keyboard up''.
\<close>

definition releaseRipple :: "'e \<Rightarrow> 'e ripple list \<Rightarrow> 'e ripple list" where
  "releaseRipple event rs = map (\<lambda>r. r\<lparr>holding := False\<rparr>) rs"

text \<open>Modelled from the spec: \<^verbatim>\<open>cancel\<close> of the hook that
  keeps the ripple state, which is outside the modules formalised here: the records are
  ``cancelled on leave''.
\<close>

definition cancelRipples :: "bool \<Rightarrow> 'e ripple list \<Rightarrow> 'e ripple list" where
  "cancelRipples ease rs = []"

text \<open>Options over this ripple state, with no handlers of the caller and all flags off.\<close>

definition rippleOptions :: "('h, 'e, 'e ripple list) Options" where
  "rippleOptions =
     \<lparr>create = createRipple, release = releaseRipple, cancel = cancelRipples,
      handlers = (\<lambda>name. None), disabled = False, disableRipple = False,
      disableProgrammaticRipple = False\<rparr>"


section \<open>Tooltip handlers: useMouseState, useKeyboardState and useTouchState\<close>

text \<open>
  The state that the three hooks read and write: the interaction mode of the user
  (\<^verbatim>\<open>mode\<close>, one of \<^verbatim>\<open>"mouse"\<close>, \<^verbatim>\<open>"keyboard"\<close> and \<^verbatim>\<open>"touch"\<close>), the ref \<^verbatim>\<open>initiated\<close>
  (\<open>None\<close> is \<^verbatim>\<open>null\<close>), the visibility of the tooltip, the refs \<^verbatim>\<open>touched\<close> and
  \<^verbatim>\<open>isWindowBlurred\<close>, whether an animation frame is requested, whether the window
  \<^verbatim>\<open>touchend\<close> listener is attached, and the three timers of \<^verbatim>\<open>useTimeout\<close>: \<open>None\<close> when no
  timeout is pending, otherwise the milliseconds left. \<open>trace\<close> collects the effects of
  all handlers that ran, in program order.
\<close>

record 'h tooltip =
  mode :: string
  initiated :: "string option"
  visible :: bool
  touched :: bool
  isWindowBlurred :: bool
  frameRequested :: bool
  touchendListener :: bool
  mouseTimer :: "nat option"
  keyboardTimer :: "nat option"
  touchTimer :: "nat option"
  trace :: "'h effect list"

text \<open>
  The options of the hooks that stay fixed: the \<^verbatim>\<open>delay\<close> prop, \<^verbatim>\<open>disableHoverMode\<close> (\<open>None\<close>
  when it is not a boolean), the two values read from the hover mode context, and the
  handlers of the caller by the name of their prop.
\<close>

record 'h TooltipProps =
  delay :: nat
  disableHoverMode :: "bool option"
  hoverModeEnabled :: bool
  hoverModeDelay :: nat
  mergable :: "handler_name \<Rightarrow> 'h option"

definition isHoverModeable :: "'h TooltipProps \<Rightarrow> bool" where
  "isHoverModeable p =
     (case disableHoverMode p of None \<Rightarrow> hoverModeEnabled p | Some b \<Rightarrow> \<not> b)"

text \<open>The delay that each hook hands to \<^verbatim>\<open>useTimeout\<close>.\<close>

fun timerDelay :: "'h TooltipProps \<Rightarrow> timer \<Rightarrow> nat" where
  "timerDelay p MouseTimer = (if \<not> isHoverModeable p then delay p else hoverModeDelay p)"
| "timerDelay p KeyboardTimer = delay p"
| "timerDelay p TouchTimer = delay p"

fun pending :: "timer \<Rightarrow> 'h tooltip \<Rightarrow> nat option" where
  "pending MouseTimer s = mouseTimer s"
| "pending KeyboardTimer s = keyboardTimer s"
| "pending TouchTimer s = touchTimer s"

fun set_timer :: "timer \<Rightarrow> nat option \<Rightarrow> 'h tooltip \<Rightarrow> 'h tooltip" where
  "set_timer MouseTimer v s = s\<lparr>mouseTimer := v\<rparr>"
| "set_timer KeyboardTimer v s = s\<lparr>keyboardTimer := v\<rparr>"
| "set_timer TouchTimer v s = s\<lparr>touchTimer := v\<rparr>"

text \<open>Modelled from the spec: \<^verbatim>\<open>start\<close> of
  \<^verbatim>\<open>useTimeout\<close>, a hook of the utils package, outside the modules
  formalised here. ``Timers schedule deferred callbacks on the same loop'': the callback
  is scheduled to run after the delay that the hook was given.
\<close>

definition timeout_start :: "'h TooltipProps \<Rightarrow> timer \<Rightarrow> 'h tooltip \<Rightarrow> 'h tooltip" where
  "timeout_start p t s = set_timer t (Some (timerDelay p t)) s"

text \<open>Modelled from the spec: \<^verbatim>\<open>stop\<close> of
  \<^verbatim>\<open>useTimeout\<close> of the utils package. ``Cancellation is simply
  clearing a pending timer.''
\<close>

definition timeout_stop :: "timer \<Rightarrow> 'h tooltip \<Rightarrow> 'h tooltip" where
  "timeout_stop t s = set_timer t None s"

text \<open>Modelled from the spec: the timers of \<^verbatim>\<open>useTimeout\<close> of
  the utils package while a millisecond passes: every pending timeout has one millisecond
  less to wait.
\<close>

definition timeout_tick :: "'h tooltip \<Rightarrow> 'h tooltip" where
  "timeout_tick s =
     s\<lparr>mouseTimer := map_option (\<lambda>r. r - 1) (mouseTimer s),
       keyboardTimer := map_option (\<lambda>r. r - 1) (keyboardTimer s),
       touchTimer := map_option (\<lambda>r. r - 1) (touchTimer s)\<rparr>"

text \<open>Modelled from the spec: when the event loop may run the deferred callback of a
  timer of \<^verbatim>\<open>useTimeout\<close> of the utils package: once nothing is
  left of its delay, never sooner.
\<close>

definition timeout_due :: "timer \<Rightarrow> 'h tooltip \<Rightarrow> bool" where
  "timeout_due t s = (pending t s = Some 0)"

text \<open>Modelled from the spec: \<^verbatim>\<open>showTooltip\<close> is passed in by
  the owner of the tooltip state, a hook outside the modules formalised here. The
  visibility is a ``boolean, owned by the widget instance''; showing sets it.
\<close>

definition showTooltip :: "'h tooltip \<Rightarrow> 'h tooltip" where
  "showTooltip s = s\<lparr>visible := True\<rparr>"

text \<open>Modelled from the spec: \<^verbatim>\<open>hideTooltip\<close> is passed in by
  the owner of the tooltip state, a hook outside the modules formalised here. Hiding
  clears the visibility; since with \<^verbatim>\<open>initiated\<close> being
  \<^verbatim>\<open>null\<close> ``the tooltip hasn't been initiated yet and should not
  be visible'', and no handler of the hooks ever writes \<^verbatim>\<open>null\<close>,
  hiding returns \<^verbatim>\<open>initiated\<close> to \<^verbatim>\<open>null\<close>.
\<close>

definition hideTooltip :: "'h tooltip \<Rightarrow> 'h tooltip" where
  "hideTooltip s = s\<lparr>visible := False, initiated := None\<rparr>"

text \<open>Modelled from the spec: \<^verbatim>\<open>setInitiated\<close> is passed in
  by the owner of the tooltip state, a hook outside the modules formalised here: ``a small
  callback that will set the current initiation type for the tooltip''.
\<close>

definition setInitiated :: "string option \<Rightarrow> 'h tooltip \<Rightarrow> 'h tooltip" where
  "setInitiated v s = s\<lparr>initiated := v\<rparr>"

text \<open>
  What one effect does to the state. The caller's handler, the calls on the event, on
  the selection and on the hover mode actions, and \<^verbatim>\<open>setEstimatedPosition\<close> leave it as it
  is.
\<close>

fun perform :: "'h TooltipProps \<Rightarrow> 'h effect \<Rightarrow> 'h tooltip \<Rightarrow> 'h tooltip" where
  "perform p (SetInitiated v) s = setInitiated v s"
| "perform p ShowTooltip s = showTooltip s"
| "perform p HideTooltip s = hideTooltip s"
| "perform p (Start t) s = timeout_start p t s"
| "perform p (Stop t) s = timeout_stop t s"
| "perform p (SetTouched b) s = s\<lparr>touched := b\<rparr>"
| "perform p (SetWindowBlurred b) s = s\<lparr>isWindowBlurred := b\<rparr>"
| "perform p RequestAnimationFrame s = s\<lparr>frameRequested := True\<rparr>"
| "perform p RemoveTouchendListener s = s\<lparr>touchendListener := False\<rparr>"
| "perform p _ s = s"

subsection \<open>useMouseState\<close>

text \<open>The callback given to \<^verbatim>\<open>useTimeout\<close>.\<close>

definition mouseTimeout :: "'h TooltipProps \<Rightarrow> 'h tooltip \<Rightarrow> 'h effect list" where
  "mouseTimeout p s =
     (if initiated s = Some ''mouse''
      then ShowTooltip # (if isHoverModeable p then [HoverModeEnable] else [])
      else [])"

definition handleMouseEnter :: "'h TooltipProps \<Rightarrow> 'h tooltip \<Rightarrow> 'h effect list" where
  "handleMouseEnter p s =
     callback (mergable p OnMouseEnter) @
     (if initiated s \<noteq> None then []
      else [SetInitiated (Some ''mouse''), SetEstimatedPosition, Start MouseTimer])"

definition handleMouseLeave :: "'h TooltipProps \<Rightarrow> 'h tooltip \<Rightarrow> 'h effect list" where
  "handleMouseLeave p s =
     callback (mergable p OnMouseLeave) @
     (if initiated s \<noteq> Some ''mouse'' then []
      else [Stop MouseTimer, HideTooltip] @
           (if isHoverModeable p then [HoverModeStartDisableTimer] else []))"

subsection \<open>useKeyboardState\<close>

definition keyboardTimeout :: "'h tooltip \<Rightarrow> 'h effect list" where
  "keyboardTimeout s = (if initiated s = Some ''keyboard'' then [ShowTooltip] else [])"

definition handleFocus :: "'h TooltipProps \<Rightarrow> 'h tooltip \<Rightarrow> 'h effect list" where
  "handleFocus p s =
     callback (mergable p OnFocus) @
     (if isWindowBlurred s then [SetWindowBlurred False]
      else [SetInitiated (Some ''keyboard''), SetEstimatedPosition, Start KeyboardTimer])"

definition handleBlur :: "'h TooltipProps \<Rightarrow> 'h effect list" where
  "handleBlur p = callback (mergable p OnBlur) @ [Stop KeyboardTimer, HideTooltip]"

definition handleKeyDown :: "'h TooltipProps \<Rightarrow> 'h tooltip \<Rightarrow> string \<Rightarrow> 'h effect list" where
  "handleKeyDown p s event_key =
     callback (mergable p OnKeyDown) @
     (if initiated s = Some ''keyboard'' \<and> event_key = ''Escape''
      then [Stop KeyboardTimer, HideTooltip] else [])"

text \<open>
  The \<^verbatim>\<open>visibilitychange\<close> listener; \<open>hidden\<close> is \<^verbatim>\<open>document.hidden\<close>. The requested animation
  frame sets \<^verbatim>\<open>isWindowBlurred.current = false\<close>.
\<close>

definition handleWindowBlur :: "bool \<Rightarrow> 'h effect list" where
  "handleWindowBlur hidden =
     (if hidden then [SetWindowBlurred True, HideTooltip] else [RequestAnimationFrame])"

definition animationFrame :: "'h effect list" where
  "animationFrame = [SetWindowBlurred False]"

subsection \<open>useTouchState\<close>

definition touchTimeout :: "'h effect list" where
  "touchTimeout = [SetTouched False, HideTooltip]"

definition handleTouchStart :: "'h TooltipProps \<Rightarrow> 'h effect list" where
  "handleTouchStart p =
     callback (mergable p OnTouchStart) @
     [SetTouched True, Stop TouchTimer, SetEstimatedPosition]"

definition handleTouchMove :: "'h TooltipProps \<Rightarrow> 'h effect list" where
  "handleTouchMove p = callback (mergable p OnTouchMove) @ [SetTouched False]"

text \<open>
  \<open>selectionInside\<close> is the test
  \<^verbatim>\<open>selection && selectionNode && event.currentTarget.contains(selectionNode)\<close>.
\<close>

definition handleContextMenu ::
  "'h TooltipProps \<Rightarrow> 'h tooltip \<Rightarrow> bool \<Rightarrow> 'h effect list" where
  "handleContextMenu p s selectionInside =
     callback (mergable p OnContextMenu) @
     (if \<not> touched s then []
      else PreventDefault # (if selectionInside then [SelectionEmpty] else []) @
           [SetInitiated (Some ''touch''), ShowTooltip])"

text \<open>The window \<^verbatim>\<open>touchend\<close> listener \<^verbatim>\<open>cb\<close> of the effect.\<close>

definition touchendListenerCallback :: "'h effect list" where
  "touchendListenerCallback = [Start TouchTimer, RemoveTouchendListener]"

text \<open>
  The effect of \<^verbatim>\<open>useTouchState\<close>, run after a render in which \<^verbatim>\<open>visible\<close> or \<^verbatim>\<open>mode\<close> has
  changed: the cleanup of the previous run removes the listener, then the body runs.
\<close>

definition touchEffect :: "'h tooltip \<Rightarrow> 'h tooltip" where
  "touchEffect s =
     (let s' = s\<lparr>touchendListener := False\<rparr> in
      if \<not> visible s' then s'
      else if mode s' \<noteq> ''touch'' then s'\<lparr>touched := False\<rparr>
      else s'\<lparr>touchendListener := True\<rparr>)"

subsection \<open>Events\<close>

text \<open>
  What can happen to a widget: the events on its element (\<open>KeyDown\<close> carries
  \<^verbatim>\<open>event.key\<close>, \<open>ContextMenu\<close> the selection test), the \<^verbatim>\<open>touchend\<close> and \<^verbatim>\<open>visibilitychange\<close> events
  of the window (with \<^verbatim>\<open>document.hidden\<close>), an animation frame, a millisecond that passes,
  the event loop running the callback of a timeout, and a change of the interaction mode
  of the user.
\<close>

datatype event =
    MouseEnter | MouseLeave | Focus | Blur | KeyDown string
  | TouchStart | TouchMove | ContextMenu bool
  | WindowTouchEnd | VisibilityChange bool | AnimationFrame
  | Tick | Timeout timer | ModeChange string

text \<open>The prop under which the caller supplies a handler for an event of the element.\<close>

fun handler_of :: "event \<Rightarrow> handler_name option" where
  "handler_of MouseEnter = Some OnMouseEnter"
| "handler_of MouseLeave = Some OnMouseLeave"
| "handler_of Focus = Some OnFocus"
| "handler_of Blur = Some OnBlur"
| "handler_of (KeyDown k) = Some OnKeyDown"
| "handler_of TouchStart = Some OnTouchStart"
| "handler_of TouchMove = Some OnTouchMove"
| "handler_of (ContextMenu b) = Some OnContextMenu"
| "handler_of _ = None"

text \<open>
  The effects of an event. For an event of the element this is the handler that the
  hooks return for the current mode: the merged one, or the handler of the caller as it
  was given. The \<^verbatim>\<open>visibilitychange\<close> listener is attached in keyboard mode only. The
  callback of a timeout runs only when the timeout is due.
\<close>

fun event_effects :: "'h TooltipProps \<Rightarrow> 'h tooltip \<Rightarrow> event \<Rightarrow> 'h effect list" where
  "event_effects p s MouseEnter =
     (if mode s \<noteq> ''touch'' then handleMouseEnter p s else callback (mergable p OnMouseEnter))"
| "event_effects p s MouseLeave =
     (if mode s \<noteq> ''touch'' then handleMouseLeave p s else callback (mergable p OnMouseLeave))"
| "event_effects p s Focus =
     (if mode s = ''keyboard'' then handleFocus p s else callback (mergable p OnFocus))"
| "event_effects p s Blur =
     (if mode s = ''keyboard'' then handleBlur p else callback (mergable p OnBlur))"
| "event_effects p s (KeyDown k) =
     (if mode s = ''keyboard'' then handleKeyDown p s k else callback (mergable p OnKeyDown))"
| "event_effects p s TouchStart = handleTouchStart p"
| "event_effects p s TouchMove = handleTouchMove p"
| "event_effects p s (ContextMenu selectionInside) =
     (if mode s = ''touch'' then handleContextMenu p s selectionInside
      else callback (mergable p OnContextMenu))"
| "event_effects p s WindowTouchEnd =
     (if touchendListener s then touchendListenerCallback else [])"
| "event_effects p s (VisibilityChange hidden) =
     (if mode s = ''keyboard'' then handleWindowBlur hidden else [])"
| "event_effects p s AnimationFrame = (if frameRequested s then animationFrame else [])"
| "event_effects p s Tick = []"
| "event_effects p s (Timeout MouseTimer) =
     (if timeout_due MouseTimer s then mouseTimeout p s else [])"
| "event_effects p s (Timeout KeyboardTimer) =
     (if timeout_due KeyboardTimer s then keyboardTimeout s else [])"
| "event_effects p s (Timeout TouchTimer) =
     (if timeout_due TouchTimer s then touchTimeout else [])"
| "event_effects p s (ModeChange m) = []"

text \<open>
  What the environment does at an event before any handler runs: time passes, a timeout
  that is due is taken off its timer as its callback is about to run, the requested
  frame is consumed, the mode changes.
\<close>

fun arrive :: "event \<Rightarrow> 'h tooltip \<Rightarrow> 'h tooltip" where
  "arrive Tick s = timeout_tick s"
| "arrive (Timeout t) s = (if timeout_due t s then set_timer t None s else s)"
| "arrive AnimationFrame s = s\<lparr>frameRequested := False\<rparr>"
| "arrive (ModeChange m) s = s\<lparr>mode := m\<rparr>"
| "arrive _ s = s"

text \<open>
  One event: its effects are performed in order and recorded, and the effect of
  \<^verbatim>\<open>useTouchState\<close> runs when \<^verbatim>\<open>visible\<close> or \<^verbatim>\<open>mode\<close> is not what it was.
\<close>

definition step :: "'h TooltipProps \<Rightarrow> event \<Rightarrow> 'h tooltip \<Rightarrow> 'h tooltip" where
  "step p e s =
     (let effs = event_effects p s e;
          s1 = fold (perform p) effs (arrive e s);
          s2 = s1\<lparr>trace := trace s @ effs\<rparr>
      in if visible s2 = visible s \<and> mode s2 = mode s then s2 else touchEffect s2)"

definition run :: "'h TooltipProps \<Rightarrow> event list \<Rightarrow> 'h tooltip \<Rightarrow> 'h tooltip" where
  "run p es s = fold (step p) es s"

text \<open>The milliseconds that pass during a sequence of events.\<close>

definition ticks :: "event list \<Rightarrow> nat" where
  "ticks es = length (filter (\<lambda>e. e = Tick) es)"

text \<open>The handler that the caller supplied for an event, if any.\<close>

definition supplied :: "'h TooltipProps \<Rightarrow> event \<Rightarrow> 'h option" where
  "supplied p e = (case handler_of e of None \<Rightarrow> None | Some name \<Rightarrow> mergable p name)"

text \<open>The same props without any handler of the caller.\<close>

definition unmerged :: "'h TooltipProps \<Rightarrow> 'h TooltipProps" where
  "unmerged p = p\<lparr>mergable := (\<lambda>name. None)\<rparr>"

text \<open>The values of the type \<^verbatim>\<open>TooltipInitiated\<close> that the code and its comments name.\<close>

definition TooltipInitiated :: "string option set" where
  "TooltipInitiated = {None, Some ''mouse'', Some ''keyboard'', Some ''touch'', Some ''window''}"

text \<open>The event of the element whose merged handler starts a timer.\<close>

fun starter :: "timer \<Rightarrow> event" where
  "starter MouseTimer = MouseEnter"
| "starter KeyboardTimer = Focus"
| "starter TouchTimer = WindowTouchEnd"

text \<open>
  A timer runs undisturbed through a sequence of events when no handler starts or stops
  it and it is still pending after each of them, so that its callback has not run.
\<close>

fun undisturbed :: "timer \<Rightarrow> 'h TooltipProps \<Rightarrow> event list \<Rightarrow> 'h tooltip \<Rightarrow> bool" where
  "undisturbed t p [] s = True"
| "undisturbed t p (e # es) s =
     (Start t \<notin> set (event_effects p s e) \<and> Stop t \<notin> set (event_effects p s e)
      \<and> pending t (step p e s) \<noteq> None \<and> undisturbed t p es (step p e s))"

text \<open>A widget in a given mode before anything happened, and props with no handlers.\<close>

definition initial :: "string \<Rightarrow> 'h tooltip" where
  "initial m =
     \<lparr>mode = m, initiated = None, visible = False, touched = False,
      isWindowBlurred = False, frameRequested = False, touchendListener = False,
      mouseTimer = None, keyboardTimer = None, touchTimer = None, trace = []\<rparr>"

definition plainProps :: "nat \<Rightarrow> 'h TooltipProps" where
  "plainProps d =
     \<lparr>delay = d, disableHoverMode = Some True, hoverModeEnabled = False,
      hoverModeDelay = 0, mergable = (\<lambda>name. None)\<rparr>"


section \<open>GridList: properties of the sizing\<close>

lemma rhe_cases:
  "round_half_even x = \<lfloor>x\<rfloor> \<or> round_half_even x = \<lfloor>x\<rfloor> + 1"
  by (simp add: round_half_even_def Let_def)

lemma rhe_error: "\<bar>of_int (round_half_even x) - x\<bar> \<le> 1 / 2"
proof -
  have "of_int \<lfloor>x\<rfloor> \<le> x" "x < of_int \<lfloor>x\<rfloor> + 1" by linarith+
  then show ?thesis
    by (auto simp add: round_half_even_def Let_def abs_le_iff)
qed

lemma rhe_unique:
  assumes "\<bar>x - of_int n\<bar> < 1 / 2"
  shows "round_half_even x = n"
proof -
  from rhe_error [of x] assms
  have "\<bar>(of_int (round_half_even x) :: rat) - of_int n\<bar> < 1" by linarith
  then have "\<bar>of_int (round_half_even x - n) :: rat\<bar> < 1" by simp
  then have "\<bar>round_half_even x - n\<bar> < 1"
    by (metis of_int_abs of_int_less_1_iff)
  then show ?thesis by simp
qed

lemma rhe_of_int [simp]: "round_half_even (of_int n) = n"
  by (rule rhe_unique) simp

lemma rhe_mono:
  assumes "x \<le> y"
  shows "round_half_even x \<le> round_half_even y"
proof (cases "\<lfloor>x\<rfloor> = \<lfloor>y\<rfloor>")
  case True
  with assms show ?thesis
    by (auto simp add: round_half_even_def Let_def)
next
  case False
  with assms have "\<lfloor>x\<rfloor> < \<lfloor>y\<rfloor>"
    using floor_mono [OF assms] by linarith
  moreover have "round_half_even x \<le> \<lfloor>x\<rfloor> + 1" "\<lfloor>y\<rfloor> \<le> round_half_even y"
    using rhe_cases [of x] rhe_cases [of y] by auto
  ultimately show ?thesis by linarith
qed

lemma rhe_ge: "of_int n \<le> x \<Longrightarrow> n \<le> round_half_even x"
  using rhe_mono [of "of_int n" x] by simp

lemma rhe_le: "x \<le> of_int n \<Longrightarrow> round_half_even x \<le> n"
  using rhe_mono [of x "of_int n"] by simp


lemma floor_less_power: "\<lfloor>s :: rat\<rfloor> < 2 ^ n \<longleftrightarrow> s < 2 ^ n"
  by (metis floor_less_iff of_int_numeral of_int_power)

lemma power_le_floor: "2 ^ n \<le> \<lfloor>s :: rat\<rfloor> \<longleftrightarrow> 2 ^ n \<le> s"
  by (metis le_floor_iff of_int_numeral of_int_power)

lemma bitlen_mono: "a \<le> b \<Longrightarrow> bitlen a \<le> bitlen b"
  by (simp add: bitlen_def floorlog_mono nat_mono)

lemma binade_shift_mono: "s \<le> t \<Longrightarrow> binade_shift s \<le> binade_shift t"
  unfolding binade_shift_def
  by (intro nat_mono diff_right_mono bitlen_mono floor_mono)

lemma bitlen_le_nat: "bitlen x \<le> int n \<longleftrightarrow> x < 2 ^ n"
  using bitlen_le_iff_power [of x "int n"] by simp

lemma bitlen_ge_nat: "int (Suc n) \<le> bitlen x \<longleftrightarrow> 2 ^ n \<le> x"
proof -
  have "int (Suc n) \<le> bitlen x \<longleftrightarrow> int (Suc n) \<le> 0 \<or> 2 ^ (nat (int (Suc n)) - 1) \<le> x"
    by (rule bitlen_ge_iff_power)
  also have "nat (int (Suc n)) - 1 = n"
    by (simp only: nat_int diff_Suc_1)
  finally show ?thesis by simp
qed

lemma binade_shift_zero:
  assumes "s < 2 ^ 53"
  shows "binade_shift s = 0"
proof -
  from assms have "\<lfloor>s\<rfloor> < 2 ^ 53" by (simp only: floor_less_power)
  then have "bitlen \<lfloor>s\<rfloor> \<le> int 53"
    by (simp only: bitlen_le_nat)
  then show ?thesis by (simp add: binade_shift_def)
qed

lemma binade_shift_eqI:
  assumes "2 ^ (k + 52) \<le> s" and "s < 2 ^ (k + 53)"
  shows "binade_shift s = k"
proof -
  from assms have lo: "2 ^ (k + 52) \<le> \<lfloor>s\<rfloor>" and hi: "\<lfloor>s\<rfloor> < 2 ^ (k + 53)"
    by (simp_all add: floor_less_power power_le_floor)
  from hi have "bitlen \<lfloor>s\<rfloor> \<le> int (k + 53)"
    by (simp only: bitlen_le_nat)
  moreover from lo have "int (Suc (k + 52)) \<le> bitlen \<lfloor>s\<rfloor>"
    by (simp only: bitlen_ge_nat)
  ultimately show ?thesis by (simp add: binade_shift_def)
qed

lemma binade_shift_upper: "s < 2 ^ (binade_shift s + 53)"
proof -
  have "bitlen \<lfloor>s\<rfloor> \<le> int (binade_shift s + 53)"
    by (simp add: binade_shift_def)
  then have "\<lfloor>s\<rfloor> < 2 ^ (binade_shift s + 53)"
    by (simp only: bitlen_le_nat)
  then show ?thesis by (simp only: floor_less_power)
qed

lemma binade_shift_lower:
  assumes "0 < binade_shift s"
  shows "2 ^ (binade_shift s + 52) \<le> s"
proof -
  from assms have "int (Suc (binade_shift s + 52)) \<le> bitlen \<lfloor>s\<rfloor>"
    by (simp add: binade_shift_def)
  then have "2 ^ (binade_shift s + 52) \<le> \<lfloor>s\<rfloor>"
    by (simp only: bitlen_ge_nat)
  then show ?thesis by (simp only: power_le_floor)
qed


lemma round_scaled_upper: "round_scaled s \<le> 2 ^ (binade_shift s + 53)"
proof -
  let ?k = "binade_shift s"
  have "s / 2 ^ ?k < 2 ^ 53"
    using binade_shift_upper [of s] by (simp add: power_add divide_less_eq mult.commute)
  then have "s / 2 ^ ?k \<le> of_int (2 ^ 53)" by simp
  then have "round_half_even (s / 2 ^ ?k) \<le> 2 ^ 53" by (rule rhe_le)
  then have "round_half_even (s / 2 ^ ?k) * 2 ^ ?k \<le> 2 ^ 53 * 2 ^ ?k"
    by (rule mult_right_mono) simp
  then show ?thesis by (simp add: round_scaled_def power_add mult.commute)
qed

lemma round_scaled_lower:
  assumes "0 < binade_shift s"
  shows "2 ^ (binade_shift s + 52) \<le> round_scaled s"
proof -
  let ?k = "binade_shift s"
  have "2 ^ 52 \<le> s / 2 ^ ?k"
    using binade_shift_lower [OF assms] by (simp add: power_add le_divide_eq mult.commute)
  then have "of_int (2 ^ 52) \<le> s / 2 ^ ?k" by simp
  then have "2 ^ 52 \<le> round_half_even (s / 2 ^ ?k)" by (rule rhe_ge)
  then have "2 ^ 52 * 2 ^ ?k \<le> round_half_even (s / 2 ^ ?k) * 2 ^ ?k"
    by (rule mult_right_mono) simp
  then show ?thesis by (simp add: round_scaled_def power_add mult.commute)
qed

lemma round_scaled_mono:
  assumes "s \<le> t"
  shows "round_scaled s \<le> round_scaled t"
proof (cases "binade_shift s = binade_shift t")
  case True
  from assms have "s / 2 ^ binade_shift t \<le> t / 2 ^ binade_shift t"
    by (simp add: divide_right_mono)
  then have "round_half_even (s / 2 ^ binade_shift t) \<le> round_half_even (t / 2 ^ binade_shift t)"
    by (rule rhe_mono)
  then show ?thesis
    by (simp add: round_scaled_def True mult_right_mono)
next
  case False
  with binade_shift_mono [OF assms] have lt: "binade_shift s < binade_shift t" by simp
  then have "0 < binade_shift t" by simp
  then have "2 ^ (binade_shift t + 52) \<le> round_scaled t" by (rule round_scaled_lower)
  moreover have "round_scaled s \<le> 2 ^ (binade_shift s + 53)" by (rule round_scaled_upper)
  moreover from lt have "(2::int) ^ (binade_shift s + 53) \<le> 2 ^ (binade_shift t + 52)"
    by (intro power_increasing) simp_all
  ultimately show ?thesis by linarith
qed

lemma round_scaled_error: "\<bar>of_int (round_scaled s) - s\<bar> \<le> 2 ^ binade_shift s / 2"
proof -
  let ?k = "binade_shift s"
  have "\<bar>of_int (round_half_even (s / 2 ^ ?k)) - s / 2 ^ ?k\<bar> * 2 ^ ?k \<le> 1 / 2 * 2 ^ ?k"
    by (intro mult_right_mono rhe_error) simp
  moreover have "\<bar>of_int (round_half_even (s / 2 ^ ?k)) - s / 2 ^ ?k\<bar> * 2 ^ ?k
      = \<bar>of_int (round_scaled s) - s\<bar>"
  proof -
    have "\<bar>of_int (round_half_even (s / 2 ^ ?k)) - s / 2 ^ ?k\<bar> * 2 ^ ?k
        = \<bar>(of_int (round_half_even (s / 2 ^ ?k)) - s / 2 ^ ?k) * 2 ^ ?k\<bar>"
      by (simp add: abs_mult)
    also have "(of_int (round_half_even (s / 2 ^ ?k)) - s / 2 ^ ?k) * 2 ^ ?k
        = of_int (round_scaled s) - s"
      by (simp add: round_scaled_def left_diff_distrib)
    finally show ?thesis .
  qed
  ultimately show ?thesis by simp
qed

lemma round_scaled_relative_error:
  assumes "2 ^ 52 \<le> s"
  shows "\<bar>of_int (round_scaled s) - s\<bar> \<le> s / 2 ^ 53"
proof -
  have "2 ^ (binade_shift s + 52) \<le> s"
    using assms binade_shift_lower [of s] by (cases "binade_shift s = 0") simp_all
  then have "2 ^ binade_shift s / 2 \<le> s / 2 ^ 53"
    by (simp add: power_add field_simps)
  with round_scaled_error [of s] show ?thesis by linarith
qed

lemma round_scaled_exact:
  assumes "s = of_int a * 2 ^ j" and "binade_shift s \<le> j"
  shows "round_scaled s = a * 2 ^ j"
proof -
  define k where "k = binade_shift s"
  with assms(2) have p: "(2::int) ^ (j - k) * 2 ^ k = 2 ^ j"
    by (simp add: power_add [symmetric])
  then have "(of_int ((2::int) ^ (j - k) * 2 ^ k) :: rat) = of_int (2 ^ j)"
    by (simp only:)
  then have q: "(2::rat) ^ j = 2 ^ (j - k) * 2 ^ k" by simp
  have "s / 2 ^ k = of_int a * (2 ^ (j - k) * 2 ^ k) / 2 ^ k"
    by (simp only: assms(1) q)
  also have "\<dots> = of_int (a * 2 ^ (j - k))" by simp
  finally have "round_half_even (s / 2 ^ k) = a * 2 ^ (j - k)"
    by (simp only: rhe_of_int)
  then have "round_scaled s = a * (2 ^ (j - k) * 2 ^ k)"
    by (simp add: round_scaled_def k_def)
  then show ?thesis by (simp only: p)
qed


lemma round_scaled_nonneg:
  assumes "0 \<le> s"
  shows "0 \<le> round_scaled s"
proof -
  have "round_scaled 0 = 0"
    using round_scaled_exact [of 0 0 0] by (simp add: binade_shift_zero)
  with round_scaled_mono [OF assms] show ?thesis by simp
qed

text \<open>Rounding keeps the order of positive numbers.\<close>

lemma js_ceil_to_double_mono:
  assumes "0 < a" and "a \<le> b"
  shows "js_le (js_ceil (to_double a)) (js_ceil (to_double b))"
proof -
  let ?na = "round_scaled (\<bar>a\<bar> * 2 ^ subnormal_bits)"
  let ?nb = "round_scaled (\<bar>b\<bar> * 2 ^ subnormal_bits)"
  from assms have "\<bar>a\<bar> * 2 ^ subnormal_bits \<le> \<bar>b\<bar> * 2 ^ subnormal_bits"
    by simp
  then have le: "?na \<le> ?nb" by (rule round_scaled_mono)
  have "0 \<le> ?na" by (rule round_scaled_nonneg) simp
  from le have "(of_int ?na :: rat) / 2 ^ subnormal_bits \<le> of_int ?nb / 2 ^ subnormal_bits"
    by (simp add: divide_right_mono)
  then have c: "\<lceil>(of_int ?na :: rat) / 2 ^ subnormal_bits\<rceil>
      \<le> \<lceil>(of_int ?nb :: rat) / 2 ^ subnormal_bits\<rceil>"
    by (rule ceiling_mono)
  from assms le \<open>0 \<le> ?na\<close> c show ?thesis
    by (auto simp add: to_double_def Let_def not_le)
qed


lemma js_div_finite:
  assumes "a \<noteq> 0" and "b \<noteq> 0"
  shows "js_div (Fin a) (Fin b) = to_double (a / b)"
  using assms by (simp add: js_div_def)

lemma effectiveWidth_maxCellSize_update:
  "effectiveWidth (props\<lparr>maxCellSize := m\<rparr>) scrollbarWidth el
     = effectiveWidth props scrollbarWidth el"
  by (simp add: effectiveWidth_def)

lemma columns_finite:
  assumes "effectiveWidth props scrollbarWidth el = Fin w" and "maxCellSize props = Fin m"
    and "w \<noteq> 0" and "m \<noteq> 0"
  shows "columns (recalculate props scrollbarWidth (Some el) gridSize)
           = js_ceil (to_double (w / m))"
  using assms by (simp add: recalculate_def Let_def js_div_finite)

lemma binade_shift_le:
  assumes "s < 2 ^ (j + 53)"
  shows "binade_shift s \<le> j"
proof -
  from assms have "\<lfloor>s\<rfloor> < 2 ^ (j + 53)" by (simp only: floor_less_power)
  then have "bitlen \<lfloor>s\<rfloor> \<le> int (j + 53)" by (simp only: bitlen_le_nat)
  then show ?thesis by (simp add: binade_shift_def)
qed

text \<open>Integers below \<open>2 ^ 53\<close> in magnitude are doubles.\<close>

lemma to_double_of_int:
  assumes "i \<noteq> 0" and "\<bar>i\<bar> < 2 ^ 53"
  shows "to_double (of_int i) = Fin (of_int i)"
proof -
  let ?s = "\<bar>of_int i :: rat\<bar> * 2 ^ subnormal_bits"
  have s: "?s = of_int \<bar>i\<bar> * 2 ^ subnormal_bits" by simp
  from assms(2) have "(of_int \<bar>i\<bar> :: rat) < of_int (2 ^ 53)"
    by (simp only: of_int_less_iff)
  then have "?s < 2 ^ 53 * 2 ^ subnormal_bits" by simp
  then have "?s < 2 ^ (subnormal_bits + 53)" by (simp add: power_add mult.commute)
  then have "binade_shift ?s \<le> subnormal_bits" by (rule binade_shift_le)
  with s have n: "round_scaled ?s = \<bar>i\<bar> * 2 ^ subnormal_bits"
    by (rule round_scaled_exact)
  from assms(2) have "\<bar>i\<bar> * 2 ^ subnormal_bits < 2 ^ 53 * 2 ^ subnormal_bits" by simp
  also have "\<dots> \<le> (2::int) ^ (1024 + subnormal_bits)"
    by (simp add: power_add)
  finally have lt: "\<not> 2 ^ (1024 + subnormal_bits) \<le> \<bar>i\<bar> * 2 ^ subnormal_bits" by simp
  from assms(1) have nz: "\<bar>i\<bar> * 2 ^ subnormal_bits \<noteq> 0" by simp
  show ?thesis
    unfolding to_double_def Let_def n
    using lt nz assms(1) by (simp add: abs_if)
qed


text \<open>
  Away from the subnormal numbers and from overflow the rounded value is within the
  relative error \<open>2 ^ - 53\<close>.
\<close>

lemma to_double_relative_error:
  assumes "2 ^ 52 \<le> q * 2 ^ subnormal_bits" and "q * 2 ^ subnormal_bits < 2 ^ 2097"
  shows "\<exists>d. to_double q = Fin d \<and> 0 < d \<and> \<bar>d - q\<bar> \<le> q / 2 ^ 53"
proof -
  let ?S = "(2::rat) ^ subnormal_bits"
  let ?s = "q * ?S"
  let ?n = "round_scaled ?s"
  have S: "0 < ?S" by simp
  from assms(1) have s: "0 < ?s" by (rule less_le_trans [rotated]) simp
  with S have q: "0 < q" by (simp add: zero_less_mult_iff)
  then have a: "\<bar>q\<bar> = q" by simp
  from assms(1) have err: "\<bar>of_int ?n - ?s\<bar> \<le> ?s / 2 ^ 53"
    by (rule round_scaled_relative_error)
  have "?s / 2 ^ 53 < ?s" using s by simp
  with err have pos: "0 < (of_int ?n :: rat)" by linarith
  then have n0: "0 < ?n" by simp
  from err have "of_int ?n \<le> ?s + ?s / 2 ^ 53" by linarith
  also have "\<dots> \<le> 2 * ?s" using s by simp
  also have "\<dots> < 2 * 2 ^ 2097" using assms(2) by simp
  finally have "(of_int ?n :: rat) < of_int (2 ^ 2098)" by simp
  then have "?n < 2 ^ 2098" by (simp only: of_int_less_iff)
  then have lt: "\<not> 2 ^ (1024 + subnormal_bits) \<le> ?n"
    by (simp add: subnormal_bits_def)
  have td: "to_double q = Fin (of_int ?n / ?S)"
    unfolding to_double_def Let_def a using lt n0 q by simp
  have "\<bar>of_int ?n / ?S - q\<bar> = \<bar>of_int ?n - ?s\<bar> / ?S"
  proof -
    have "of_int ?n / ?S - q = (of_int ?n - ?s) / ?S"
      by (simp add: diff_divide_distrib)
    then show ?thesis by (simp add: abs_divide)
  qed
  also have "\<dots> \<le> (?s / 2 ^ 53) / ?S"
    by (rule divide_right_mono [OF err]) simp
  also have "\<dots> = q / 2 ^ 53" by simp
  finally have "\<bar>of_int ?n / ?S - q\<bar> \<le> q / 2 ^ 53" .
  moreover from pos S have "0 < of_int ?n / ?S" by simp
  ultimately show ?thesis using td by blast
qed

text \<open>
  For a quotient of two positive integers below \<open>2 ^ 53\<close> the ceiling of the rounded
  quotient is the ceiling of the exact quotient.
\<close>

lemma js_ceil_to_double_ratio:
  assumes "0 < w" and "w < 2 ^ 53" and "0 < m" and "m < 2 ^ 53"
  shows "js_ceil (to_double (of_int w / of_int m)) = Fin (of_int \<lceil>of_int w / of_int m :: rat\<rceil>)"
proof -
  let ?q = "of_int w / of_int m :: rat"
  let ?c = "\<lceil>?q\<rceil>"
  from assms have q: "0 < ?q" by simp
  then have c: "0 < ?c" by simp
  from assms have m1: "(1::rat) \<le> of_int m" by simp
  from assms(1) m1 have qw: "?q \<le> of_int w"
    by (simp add: divide_le_eq mult_le_cancel_left1)
  have d: "\<exists>d. to_double ?q = Fin d \<and> of_int ?c - 1 < d \<and> d \<le> of_int ?c"
  proof (cases "?q = of_int ?c")
    case True
    from qw have "?c \<le> w" by (simp only: ceiling_le_iff)
    with assms(2) c have "?c \<noteq> 0" "\<bar>?c\<bar> < 2 ^ 53" by linarith+
    then have "to_double (of_int ?c) = Fin (of_int ?c)" by (rule to_double_of_int)
    with True show ?thesis by simp
  next
    case False
    then have lt: "?q < of_int ?c" using le_of_int_ceiling [of ?q] by linarith
    have gt: "of_int ?c - 1 < ?q" by linarith
    \<comment> \<open>the quotient keeps the distance \<open>1 / m\<close> from both integers\<close>
    from lt assms(3) have "of_int w < (of_int (?c * m) :: rat)"
      by (simp add: divide_less_eq)
    then have "w < ?c * m" by (simp only: of_int_less_iff)
    then have "w + 1 \<le> ?c * m" by simp
    then have "(of_int (w + 1) :: rat) \<le> of_int (?c * m)" by (simp only: of_int_le_iff)
    with assms(3) have up: "?q + 1 / of_int m \<le> of_int ?c"
      by (simp add: field_simps)
    from gt assms(3) have "(of_int ((?c - 1) * m) :: rat) < of_int w"
      by (simp add: less_divide_eq)
    then have "(?c - 1) * m < w" by (simp only: of_int_less_iff)
    then have "(?c - 1) * m \<le> w - 1" by simp
    then have "(of_int ((?c - 1) * m) :: rat) \<le> of_int (w - 1)" by (simp only: of_int_le_iff)
    with assms(3) have lo: "of_int ?c - 1 \<le> ?q - 1 / of_int m"
      by (simp add: field_simps)
    \<comment> \<open>the rounding error is smaller than that\<close>
    from assms(2) have "(of_int w :: rat) < of_int (2 ^ 53)" by (simp only: of_int_less_iff)
    then have w53: "(of_int w :: rat) / 2 ^ 53 < 1" by simp
    from assms(3) have mpos: "(0::rat) < of_int m" by simp
    have "?q / 2 ^ 53 = (of_int w / 2 ^ 53) / of_int m" by simp
    also have "\<dots> < 1 / of_int m"
      by (rule divide_strict_right_mono [OF w53 mpos])
    finally have small: "?q / 2 ^ 53 < 1 / of_int m" .
    \<comment> \<open>the quotient is a normal number\<close>
    from assms(4) have "(of_int m :: rat) < of_int (2 ^ 53)" by (simp only: of_int_less_iff)
    then have m53: "(of_int m :: rat) < 2 ^ 53" by simp
    from assms(1) have "(1::rat) \<le> of_int w" by simp
    have "(2::rat) ^ 52 \<le> 2 ^ subnormal_bits / 2 ^ 53"
      by (simp add: subnormal_bits_def)
    also have "\<dots> \<le> 2 ^ subnormal_bits / of_int m"
      using m53 assms(3) by (intro divide_left_mono) simp_all
    also have "\<dots> \<le> of_int w * (2 ^ subnormal_bits / of_int m)"
    proof -
      from mpos have "(0::rat) \<le> 2 ^ subnormal_bits / of_int m" by simp
      from mult_right_mono [OF \<open>1 \<le> of_int w\<close> this] show ?thesis by simp
    qed
    finally have normal: "2 ^ 52 \<le> ?q * 2 ^ subnormal_bits" by simp
    from qw \<open>of_int w < of_int (2 ^ 53)\<close> have "?q < 2 ^ 53" by simp
    then have "?q * 2 ^ subnormal_bits < 2 ^ 53 * 2 ^ subnormal_bits"
      by (rule mult_strict_right_mono) simp
    also have "\<dots> \<le> (2::rat) ^ 2097" by (simp add: subnormal_bits_def)
    finally have range: "?q * 2 ^ subnormal_bits < 2 ^ 2097" .
    from to_double_relative_error [OF normal range] obtain d
      where d: "to_double ?q = Fin d" "\<bar>d - ?q\<bar> \<le> ?q / 2 ^ 53" by blast
    from d(2) small up lo have "of_int ?c - 1 < d" "d \<le> of_int ?c" by linarith+
    with d(1) show ?thesis by blast
  qed
  then obtain d where d: "to_double ?q = Fin d" "of_int ?c - 1 < d" "d \<le> of_int ?c"
    by blast
  then have "\<lceil>d\<rceil> = ?c" by (intro ceiling_unique) simp_all
  moreover from c have "?c \<noteq> 0" by linarith
  ultimately show ?thesis using d(1) by simp
qed


text \<open>A certificate for the double nearest to a number between \<open>1\<close> and \<open>2 ^ 53\<close>.\<close>

lemma to_double_eqI:
  assumes "2 ^ e \<le> q" and "q < 2 ^ Suc e" and "e \<le> 52"
    and "\<bar>q * 2 ^ (52 - e) - of_int n\<bar> < 1 / 2"
  shows "to_double q = Fin (of_int n / 2 ^ (52 - e))"
proof -
  let ?S = "(2::rat) ^ subnormal_bits"
  define k where "k = e + 1022"
  from assms(3) have sb: "subnormal_bits = (52 - e) + k"
    and k52: "k + 52 = e + subnormal_bits" and k53: "k + 53 = Suc e + subnormal_bits"
    and big: "54 + k \<le> 1024 + subnormal_bits" and e53: "Suc e + (52 - e) = 53"
    and e52: "e + (52 - e) = 52"
    by (simp_all add: k_def subnormal_bits_def)
  have S: "?S = 2 ^ (52 - e) * 2 ^ k"
    by (simp only: sb power_add)
  have q: "0 < q" using assms(1) by (rule less_le_trans [rotated]) simp
  then have a: "\<bar>q\<bar> = q" by simp
  have lo: "2 ^ (k + 52) \<le> q * ?S"
    unfolding k52 power_add using assms(1) by (rule mult_right_mono) simp
  have hi: "q * ?S < 2 ^ (k + 53)"
    unfolding k53 power_add using assms(2) by (rule mult_strict_right_mono) simp
  from lo hi have k: "binade_shift (q * ?S) = k" by (rule binade_shift_eqI)
  have "q * ?S / 2 ^ k = q * 2 ^ (52 - e)" by (simp add: S)
  with assms(4) have r: "round_half_even (q * ?S / 2 ^ k) = n"
    by (simp add: rhe_unique)
  then have n: "round_scaled (q * ?S) = n * 2 ^ k"
    by (simp add: round_scaled_def k)
  from assms(4) have "q * 2 ^ (52 - e) - 1 / 2 < of_int n" "of_int n < q * 2 ^ (52 - e) + 1 / 2"
    by linarith+
  moreover have "1 \<le> q * 2 ^ (52 - e)"
  proof -
    have "(1::rat) \<le> 2 ^ e * 2 ^ (52 - e)" by (simp add: power_add [symmetric])
    also have "\<dots> \<le> q * 2 ^ (52 - e)" using assms(1) by (rule mult_right_mono) simp
    finally show ?thesis .
  qed
  moreover have "q * 2 ^ (52 - e) < 2 ^ 53"
  proof -
    have "q * 2 ^ (52 - e) < 2 ^ Suc e * 2 ^ (52 - e)"
      using assms(2) by (rule mult_strict_right_mono) simp
    also have "\<dots> = (2::rat) ^ 53" by (simp only: power_add [symmetric] e53)
    finally show ?thesis .
  qed
  ultimately have "(0::rat) < of_int n" "(of_int n :: rat) < of_int (2 ^ 54)" by simp_all
  then have n0: "0 < n" and n54: "n < 2 ^ 54"
    by (simp_all only: of_int_less_iff of_int_0_less_iff)
  from n54 have "n * 2 ^ k < 2 ^ 54 * 2 ^ k" by simp
  also have "\<dots> = (2::int) ^ (54 + k)" by (simp only: power_add)
  also have "\<dots> \<le> (2::int) ^ (1024 + subnormal_bits)"
    using big by (intro power_increasing) simp_all
  finally have lt: "\<not> 2 ^ (1024 + subnormal_bits) \<le> n * 2 ^ k" by simp
  from n0 have nz: "n * 2 ^ k \<noteq> 0" by simp
  have "to_double q = Fin (of_int (n * 2 ^ k) / ?S)"
    unfolding to_double_def Let_def a n using lt nz q by simp
  also have "of_int (n * 2 ^ k) / ?S = of_int n / 2 ^ (52 - e)"
    by (simp add: S)
  finally show ?thesis .
qed

lemma to_double_984_7: "to_double (984 / 7) = Fin (4945917447915813 / 35184372088832)"
  using to_double_eqI [of 7 "984 / 7" 4945917447915813] by simp

lemma to_double_50_4: "to_double (252 / 5) = Fin (7093169413108531 / 140737488355328)"
  using to_double_eqI [of 5 "252 / 5" 7093169413108531] by simp


lemma js_sub_int:
  assumes "\<bar>a - b\<bar> < 2 ^ 53"
  shows "js_sub (Fin (of_int a)) (Fin (of_int b)) = Fin (of_int (a - b))"
proof (cases "a - b = 0")
  case True
  then show ?thesis by (simp add: js_sub_def signed_zero_def)
next
  case False
  then have "to_double (of_int (a - b)) = Fin (of_int (a - b))"
    using assms by (rule to_double_of_int)
  with False show ?thesis by (simp add: js_sub_def)
qed

lemma effectiveWidth_int:
  assumes "containerPadding props = Fin (of_int p)"
    and "\<bar>offsetWidth el - p\<bar> < 2 ^ 53"
    and "\<bar>offsetWidth el - p - scrollbarWidth\<bar> < 2 ^ 53"
  shows "effectiveWidth props scrollbarWidth el =
           Fin (of_int (offsetWidth el - p
             - (if offsetHeight el < scrollHeight el then scrollbarWidth else 0)))"
proof -
  have w1: "js_sub (Fin (of_int (offsetWidth el))) (Fin (of_int p))
      = Fin (of_int (offsetWidth el - p))"
    by (rule js_sub_int [OF assms(2)])
  have w2: "js_sub (Fin (of_int (offsetWidth el - p))) (Fin (of_int scrollbarWidth))
      = Fin (of_int (offsetWidth el - p - scrollbarWidth))"
    by (rule js_sub_int [OF assms(3)])
  show ?thesis
    unfolding effectiveWidth_def Let_def assms(1) w1 w2 by simp
qed

lemma recalculate_int:
  assumes "effectiveWidth props scrollbarWidth el = Fin (of_int w)"
    and "maxCellSize props = Fin (of_int m)"
    and "0 < w" and "w < 2 ^ 53" and "0 < m" and "m < 2 ^ 53"
  shows "recalculate props scrollbarWidth (Some el) gridSize =
           \<lparr>columns = Fin (of_int \<lceil>of_int w / of_int m :: rat\<rceil>),
            cellWidth = to_double (of_int w / of_int \<lceil>of_int w / of_int m :: rat\<rceil>)\<rparr>"
proof -
  from assms have "0 < (of_int w / of_int m :: rat)" by simp
  then have "0 < \<lceil>of_int w / of_int m :: rat\<rceil>" by simp
  then have "\<lceil>of_int w / of_int m :: rat\<rceil> \<noteq> 0" by linarith
  then have c: "(of_int \<lceil>of_int w / of_int m :: rat\<rceil> :: rat) \<noteq> 0"
    by (simp only: of_int_eq_0_iff not_False_eq_True)
  from assms have nz: "(of_int w :: rat) \<noteq> 0" "(of_int m :: rat) \<noteq> 0" by simp_all
  show ?thesis
    unfolding recalculate_def Let_def option.case assms(1,2)
      js_div_finite [OF nz] js_ceil_to_double_ratio [OF assms(3-6)]
      js_div_finite [OF nz(1) c]
    by (rule refl)
qed

text \<open>
  Claim C1. With a mounted element, \<^verbatim>\<open>recalculate\<close> stores
  \<^verbatim>\<open>columns = Math.ceil(width / maxCellSize)\<close> and \<^verbatim>\<open>cellWidth = width / columns\<close>, where
  \<open>width\<close> is the offset width less the container padding, and less the scrollbar width
  when the content overflows; this holds for every width, padding and maximal cell size,
  in the arithmetic of JavaScript numbers. On finite operands other than zero each of the
  two divisions is the exact quotient rounded to the nearest double. When the padding and
  the maximal cell size are whole numbers (below \<open>2 ^ 53\<close>) and the width is positive,
  the width is exact, the column count is the mathematical ceiling of the exact quotient,
  and the cell width is the double nearest to the width divided by that count.
\<close>

theorem recalculate_columns_cellWidth:
  "recalculate props scrollbarWidth (Some el) gridSize =
     \<lparr>columns = js_ceil (js_div (effectiveWidth props scrollbarWidth el) (maxCellSize props)),
      cellWidth = js_div (effectiveWidth props scrollbarWidth el)
        (js_ceil (js_div (effectiveWidth props scrollbarWidth el) (maxCellSize props)))\<rparr>
   \<and> effectiveWidth props scrollbarWidth el =
       (if offsetHeight el < scrollHeight el
        then js_sub (js_sub (Fin (of_int (offsetWidth el))) (containerPadding props))
               (Fin (of_int scrollbarWidth))
        else js_sub (Fin (of_int (offsetWidth el))) (containerPadding props))
   \<and> (effectiveWidth props scrollbarWidth el = Fin x \<and> maxCellSize props = Fin y
        \<and> x \<noteq> 0 \<and> y \<noteq> 0 \<longrightarrow>
      columns (recalculate props scrollbarWidth (Some el) gridSize) = js_ceil (to_double (x / y))
      \<and> (\<forall>c. js_ceil (to_double (x / y)) = Fin c \<and> c \<noteq> 0 \<longrightarrow>
            cellWidth (recalculate props scrollbarWidth (Some el) gridSize) = to_double (x / c)))
   \<and> (containerPadding props = Fin (of_int p) \<and> maxCellSize props = Fin (of_int m)
        \<and> w = offsetWidth el - p - (if offsetHeight el < scrollHeight el then scrollbarWidth else 0)
        \<and> \<bar>offsetWidth el - p\<bar> < 2 ^ 53 \<and> \<bar>offsetWidth el - p - scrollbarWidth\<bar> < 2 ^ 53
        \<and> 0 < w \<and> 0 < m \<and> m < 2 ^ 53 \<longrightarrow>
      effectiveWidth props scrollbarWidth el = Fin (of_int w)
      \<and> columns (recalculate props scrollbarWidth (Some el) gridSize)
          = Fin (of_int \<lceil>of_int w / of_int m :: rat\<rceil>)
      \<and> cellWidth (recalculate props scrollbarWidth (Some el) gridSize)
          = to_double (of_int w / of_int \<lceil>of_int w / of_int m :: rat\<rceil>))"
proof (intro conjI impI)
  show "recalculate props scrollbarWidth (Some el) gridSize =
     \<lparr>columns = js_ceil (js_div (effectiveWidth props scrollbarWidth el) (maxCellSize props)),
      cellWidth = js_div (effectiveWidth props scrollbarWidth el)
        (js_ceil (js_div (effectiveWidth props scrollbarWidth el) (maxCellSize props)))\<rparr>"
    by (simp add: recalculate_def Let_def)
  show "effectiveWidth props scrollbarWidth el =
       (if offsetHeight el < scrollHeight el
        then js_sub (js_sub (Fin (of_int (offsetWidth el))) (containerPadding props))
               (Fin (of_int scrollbarWidth))
        else js_sub (Fin (of_int (offsetWidth el))) (containerPadding props))"
    by (simp add: effectiveWidth_def Let_def)
next
  assume a: "effectiveWidth props scrollbarWidth el = Fin x \<and> maxCellSize props = Fin y
        \<and> x \<noteq> 0 \<and> y \<noteq> 0"
  then show "columns (recalculate props scrollbarWidth (Some el) gridSize)
      = js_ceil (to_double (x / y))"
    by (simp add: columns_finite)
  from a show "\<forall>c. js_ceil (to_double (x / y)) = Fin c \<and> c \<noteq> 0 \<longrightarrow>
            cellWidth (recalculate props scrollbarWidth (Some el) gridSize) = to_double (x / c)"
    by (simp add: recalculate_def Let_def js_div_finite)
next
  assume a: "containerPadding props = Fin (of_int p) \<and> maxCellSize props = Fin (of_int m)
        \<and> w = offsetWidth el - p - (if offsetHeight el < scrollHeight el then scrollbarWidth else 0)
        \<and> \<bar>offsetWidth el - p\<bar> < 2 ^ 53 \<and> \<bar>offsetWidth el - p - scrollbarWidth\<bar> < 2 ^ 53
        \<and> 0 < w \<and> 0 < m \<and> m < 2 ^ 53"
  then have W: "effectiveWidth props scrollbarWidth el = Fin (of_int w)"
    using effectiveWidth_int [of props p el scrollbarWidth] by simp
  from a have "w < 2 ^ 53"
    by (cases "offsetHeight el < scrollHeight el") (simp_all add: abs_less_iff)
  with a W have "recalculate props scrollbarWidth (Some el) gridSize =
           \<lparr>columns = Fin (of_int \<lceil>of_int w / of_int m :: rat\<rceil>),
            cellWidth = to_double (of_int w / of_int \<lceil>of_int w / of_int m :: rat\<rceil>)\<rparr>"
    by (intro recalculate_int) simp_all
  with W show "effectiveWidth props scrollbarWidth el = Fin (of_int w)"
    "columns (recalculate props scrollbarWidth (Some el) gridSize)
          = Fin (of_int \<lceil>of_int w / of_int m :: rat\<rceil>)"
    "cellWidth (recalculate props scrollbarWidth (Some el) gridSize)
          = to_double (of_int w / of_int \<lceil>of_int w / of_int m :: rat\<rceil>)"
    by simp_all
qed


lemma ceiling_984_150: "\<lceil>164 / 25 :: rat\<rceil> = 7"
  by (simp add: ceiling_eq_iff)

lemma ceiling_984_400: "\<lceil>123 / 50 :: rat\<rceil> = 3"
  by (simp add: ceiling_eq_iff)

theorem recalculate_columns_cellWidth_witness:
  "effectiveWidth defaultProps 15 \<lparr>offsetWidth = 1000, offsetHeight = 10, scrollHeight = 10\<rparr>
     = Fin 984
   \<and> maxCellSize defaultProps = Fin 150 \<and> containerPadding defaultProps = Fin 16
   \<and> js_ceil (to_double (984 / 150)) = Fin 7
   \<and> recalculate defaultProps 15
        (Some \<lparr>offsetWidth = 1000, offsetHeight = 10, scrollHeight = 10\<rparr>)
        (initialGridSize defaultProps)
      = \<lparr>columns = Fin 7, cellWidth = Fin (4945917447915813 / 35184372088832)\<rparr>"
proof -
  let ?el = "\<lparr>offsetWidth = 1000, offsetHeight = 10, scrollHeight = 10\<rparr>"
  let ?r = "recalculate defaultProps 15 (Some ?el) (initialGridSize defaultProps)"
  note T = recalculate_columns_cellWidth
    [of defaultProps 15 ?el "initialGridSize defaultProps" 984 150 16 150 984]
  have h: "containerPadding defaultProps = Fin (of_int 16)
      \<and> maxCellSize defaultProps = Fin (of_int 150)
      \<and> (984::int) = offsetWidth ?el - 16
            - (if offsetHeight ?el < scrollHeight ?el then 15 else 0)
      \<and> \<bar>offsetWidth ?el - 16\<bar> < 2 ^ 53 \<and> \<bar>offsetWidth ?el - 16 - 15\<bar> < 2 ^ 53
      \<and> (0::int) < 984 \<and> (0::int) < 150 \<and> (150::int) < 2 ^ 53"
    by (simp add: defaultProps_def)
  note d = T [THEN conjunct2, THEN conjunct2, THEN conjunct2, THEN mp, OF h]
  from d have W: "effectiveWidth defaultProps 15 ?el = Fin 984"
    by simp
  from d have c: "columns ?r = Fin 7"
    by (simp add: ceiling_984_150)
  from d have w: "cellWidth ?r = Fin (4945917447915813 / 35184372088832)"
    by (simp add: ceiling_984_150 to_double_984_7)
  have g: "effectiveWidth defaultProps 15 ?el = Fin 984 \<and> maxCellSize defaultProps = Fin 150
      \<and> (984::rat) \<noteq> 0 \<and> (150::rat) \<noteq> 0"
    using W by (simp add: defaultProps_def)
  note q = T [THEN conjunct2, THEN conjunct2, THEN conjunct1, THEN mp, OF g, THEN conjunct1]
  from q c have j: "js_ceil (to_double (984 / 150)) = Fin 7"
    by simp
  from c w have "?r = \<lparr>columns = Fin 7, cellWidth = Fin (4945917447915813 / 35184372088832)\<rparr>"
    by (cases ?r) simp
  with W j show ?thesis by (simp add: defaultProps_def)
qed

text \<open>
  Where the quotient is not exact the rounding decides: with \<open>50.4\<close> for the maximal cell
  size, which is the double \<open>7093169413108531 / 2 ^ 47\<close>, and a width of \<open>252\<close> the
  quotient rounds to the double \<open>5\<close>, although the exact quotient lies above \<open>5\<close>.
\<close>

lemma recalculate_rounded_quotient:
  "to_double (504 / 10) = Fin (7093169413108531 / 140737488355328)
   \<and> recalculate
        \<lparr>maxCellSize = Fin (7093169413108531 / 140737488355328), containerPadding = Fin 16\<rparr>
        15 (Some \<lparr>offsetWidth = 268, offsetHeight = 10, scrollHeight = 10\<rparr>) gridSize
      = \<lparr>columns = Fin 5, cellWidth = Fin (7093169413108531 / 140737488355328)\<rparr>
   \<and> \<lceil>252 / (7093169413108531 / 140737488355328) :: rat\<rceil> = 6"
proof -
  let ?d = "7093169413108531 / 140737488355328 :: rat"
  have "to_double (252 / ?d) = Fin 5"
    using to_double_eqI [of 2 "252 / ?d" 5629499534213120] by simp
  then have q: "to_double (35465847065542656 / 7093169413108531) = Fin 5" by simp
  have w: "js_sub (Fin 268) (Fin 16) = Fin 252"
    using js_sub_int [of 268 16] by simp
  have c: "\<lceil>252 / ?d\<rceil> = 6" by (simp add: ceiling_eq_iff)
  have n: "(252::rat) \<noteq> 0" "?d \<noteq> 0" "(5::rat) \<noteq> 0" by simp_all
  have "recalculate \<lparr>maxCellSize = Fin ?d, containerPadding = Fin 16\<rparr>
        15 (Some \<lparr>offsetWidth = 268, offsetHeight = 10, scrollHeight = 10\<rparr>) gridSize
      = \<lparr>columns = Fin 5, cellWidth = Fin ?d\<rparr>"
    unfolding recalculate_def effectiveWidth_def Let_def
    by (simp add: w js_div_finite [OF n(1,2)] q js_div_finite [OF n(1,3)] to_double_50_4)
  with c to_double_50_4 show ?thesis by simp
qed

text \<open>A quotient beyond the largest double is \<open>Infinity\<close>, and the cell width is then \<open>0\<close>.\<close>

lemma to_double_overflow:
  assumes "2 ^ 1024 \<le> q"
  shows "to_double q = PosInf"
proof -
  let ?J = "1024 + subnormal_bits"
  have q: "0 < q" using assms by (rule less_le_trans [rotated]) simp
  have "(2::rat) ^ ?J < 2 ^ (?J + 53)"
    by (rule power_strict_increasing) simp_all
  then have "of_int 1 * (2::rat) ^ ?J < 2 ^ (?J + 53)" by simp
  then have "binade_shift (of_int 1 * 2 ^ ?J) \<le> ?J" by (rule binade_shift_le)
  with refl have "round_scaled (of_int 1 * 2 ^ ?J) = 1 * 2 ^ ?J"
    by (rule round_scaled_exact)
  moreover have "of_int 1 * 2 ^ ?J \<le> \<bar>q\<bar> * 2 ^ subnormal_bits"
  proof -
    have "(2::rat) ^ 1024 * 2 ^ subnormal_bits \<le> q * 2 ^ subnormal_bits"
      using assms by (rule mult_right_mono) simp
    with q show ?thesis by (simp add: power_add)
  qed
  then have "round_scaled (of_int 1 * 2 ^ ?J) \<le> round_scaled (\<bar>q\<bar> * 2 ^ subnormal_bits)"
    by (rule round_scaled_mono)
  ultimately have "2 ^ ?J \<le> round_scaled (\<bar>q\<bar> * 2 ^ subnormal_bits)" by simp
  with q show ?thesis by (simp add: to_double_def Let_def)
qed

lemma recalculate_overflow:
  "recalculate \<lparr>maxCellSize = Fin (1 / 2 ^ 1024), containerPadding = Fin 16\<rparr> 15
     (Some \<lparr>offsetWidth = 1000, offsetHeight = 10, scrollHeight = 10\<rparr>) gridSize
   = \<lparr>columns = PosInf, cellWidth = Fin 0\<rparr>"
proof -
  have w: "js_sub (Fin 1000) (Fin 16) = Fin 984"
    using js_sub_int [of 1000 16] by simp
  have "(2::rat) ^ 1024 \<le> 2 ^ 9 * 2 ^ 1024" by simp
  also have "\<dots> \<le> 984 * 2 ^ 1024" by (rule mult_right_mono) simp_all
  finally have "to_double (984 * 2 ^ 1024) = PosInf" by (rule to_double_overflow)
  then have "js_div (Fin 984) (Fin (1 / 2 ^ 1024)) = PosInf"
    by (simp add: js_div_def)
  with w show ?thesis
    by (simp add: recalculate_def effectiveWidth_def Let_def js_div_def signed_zero_def)
qed

text \<open>
  Claim C3. For a fixed positive effective width \<open>w\<close>, the column count stored by
  \<^verbatim>\<open>recalculate\<close>, which is \<^verbatim>\<open>Math.ceil(w / maxCellSize)\<close>, does not grow when the maximal
  cell size grows: for \<open>0 < m1 \<le> m2\<close> the count for \<open>m2\<close> is at most the count for \<open>m1\<close>
  (\<^verbatim>\<open><=\<close> on numbers). The rounding of the two quotients keeps their order.
\<close>

theorem columns_antimono_maxCellSize:
  assumes "effectiveWidth props scrollbarWidth el = Fin w" and "0 < w"
    and "0 < m1" and "m1 \<le> m2"
  shows "columns (recalculate (props\<lparr>maxCellSize := Fin m1\<rparr>) scrollbarWidth (Some el) gridSize)
      = js_ceil (js_div (Fin w) (Fin m1))
    \<and> columns (recalculate (props\<lparr>maxCellSize := Fin m2\<rparr>) scrollbarWidth (Some el) gridSize)
      = js_ceil (js_div (Fin w) (Fin m2))
    \<and> js_le
      (columns (recalculate (props\<lparr>maxCellSize := Fin m2\<rparr>) scrollbarWidth (Some el) gridSize))
      (columns (recalculate (props\<lparr>maxCellSize := Fin m1\<rparr>) scrollbarWidth (Some el) gridSize))"
proof -
  from assms have m2: "0 < m2" by simp
  have c1: "columns (recalculate (props\<lparr>maxCellSize := Fin m1\<rparr>) scrollbarWidth (Some el) gridSize)
      = js_ceil (to_double (w / m1))"
    using assms by (intro columns_finite) (simp_all add: effectiveWidth_maxCellSize_update)
  have c2: "columns (recalculate (props\<lparr>maxCellSize := Fin m2\<rparr>) scrollbarWidth (Some el) gridSize)
      = js_ceil (to_double (w / m2))"
    using assms m2 by (intro columns_finite) (simp_all add: effectiveWidth_maxCellSize_update)
  from assms m2 have d: "js_div (Fin w) (Fin m1) = to_double (w / m1)"
    "js_div (Fin w) (Fin m2) = to_double (w / m2)"
    by (simp_all add: js_div_finite)
  from assms m2 have "0 < w / m2" "w / m2 \<le> w / m1"
    by (simp_all add: frac_le)
  then have "js_le (js_ceil (to_double (w / m2))) (js_ceil (to_double (w / m1)))"
    by (rule js_ceil_to_double_mono)
  with c1 c2 d show ?thesis by simp
qed

theorem columns_antimono_maxCellSize_witness:
  "effectiveWidth defaultProps 15 \<lparr>offsetWidth = 1000, offsetHeight = 10, scrollHeight = 10\<rparr>
     = Fin 984
   \<and> (0::rat) < 984 \<and> (0::rat) < 150 \<and> (150::rat) \<le> 400
   \<and> js_le
       (columns (recalculate (defaultProps\<lparr>maxCellSize := Fin 400\<rparr>) 15
          (Some \<lparr>offsetWidth = 1000, offsetHeight = 10, scrollHeight = 10\<rparr>)
          (initialGridSize defaultProps)))
       (columns (recalculate (defaultProps\<lparr>maxCellSize := Fin 150\<rparr>) 15
          (Some \<lparr>offsetWidth = 1000, offsetHeight = 10, scrollHeight = 10\<rparr>)
          (initialGridSize defaultProps)))
   \<and> columns (recalculate (defaultProps\<lparr>maxCellSize := Fin 400\<rparr>) 15
          (Some \<lparr>offsetWidth = 1000, offsetHeight = 10, scrollHeight = 10\<rparr>)
          (initialGridSize defaultProps)) = Fin 3
   \<and> columns (recalculate (defaultProps\<lparr>maxCellSize := Fin 150\<rparr>) 15
          (Some \<lparr>offsetWidth = 1000, offsetHeight = 10, scrollHeight = 10\<rparr>)
          (initialGridSize defaultProps)) = Fin 7"
proof -
  let ?el = "\<lparr>offsetWidth = 1000, offsetHeight = 10, scrollHeight = 10\<rparr>"
  have W: "effectiveWidth defaultProps 15 ?el = Fin 984"
    using effectiveWidth_int [of defaultProps 16 ?el 15] by (simp add: defaultProps_def)
  have m: "(0::rat) < 984" "(0::rat) < 150" "(150::rat) \<le> 400" by simp_all
  have c: "columns (recalculate (defaultProps\<lparr>maxCellSize := Fin (of_int m)\<rparr>) 15 (Some ?el)
          (initialGridSize defaultProps)) = Fin (of_int \<lceil>of_int 984 / of_int m :: rat\<rceil>)"
    if "0 < m" "m < 2 ^ 53" for m
    using recalculate_int [of "defaultProps\<lparr>maxCellSize := Fin (of_int m)\<rparr>" 15 ?el 984 m] W that
    by (simp add: effectiveWidth_maxCellSize_update)
  from c [of 400] c [of 150]
  have c3: "columns (recalculate (defaultProps\<lparr>maxCellSize := Fin 400\<rparr>) 15 (Some ?el)
          (initialGridSize defaultProps)) = Fin 3"
    and c7: "columns (recalculate (defaultProps\<lparr>maxCellSize := Fin 150\<rparr>) 15 (Some ?el)
          (initialGridSize defaultProps)) = Fin 7"
    by (simp_all add: ceiling_984_150 ceiling_984_400)
  note le = columns_antimono_maxCellSize [OF W m, of "initialGridSize defaultProps",
      THEN conjunct2, THEN conjunct2]
  from le W c3 c7 show ?thesis by simp
qed


section \<open>Merged handlers: the caller's handler\<close>

lemma callback_None: "callback None = []"
  by (simp add: callback_def)

lemma callback_Some: "callback (Some h) = [Callback h]"
  by (simp add: callback_def)

lemma ripple_event_disabled:
  assumes "disabled opts \<or> disableRipple opts"
  shows "ripple_event opts name targetIsActive =
           (if name \<in> set ripple_handler_names then callback (handlers opts name) else [])"
  using assms by (auto simp add: ripple_event_def useRippleHandlers_def Let_def)

lemma callback_no_ripple:
  "Create \<notin> set (callback cb)" "Release \<notin> set (callback cb)" "Cancel b \<notin> set (callback cb)"
  by (simp_all add: callback_def split: option.split)

lemma fold_ripple_callback: "fold (ripple_perform opts event) (callback cb) r = r"
  by (simp add: callback_def split: option.split)

lemma ripple_event_enabled:
  assumes "\<not> disabled opts" and "\<not> disableRipple opts" and "name \<noteq> OnClick"
  shows "ripple_event opts name targetIsActive = ripple_handler opts name targetIsActive"
  using assms
  by (cases name) (simp_all add: ripple_event_def useRippleHandlers_def ripple_handler_names_def)

lemma ripple_event_callback:
  "ripple_event opts name targetIsActive =
     callback (if name \<in> set ripple_handler_names then handlers opts name else None)
     @ ripple_event (opts\<lparr>handlers := (\<lambda>name. None)\<rparr>) name targetIsActive"
  by (cases name)
    (simp_all add: ripple_event_def useRippleHandlers_def ripple_handler_names_def callback_None)

lemma ripple_event_internal:
  "list_all internal (ripple_event (opts\<lparr>handlers := (\<lambda>name. None)\<rparr>) name targetIsActive)"
  by (cases name)
    (simp_all add: ripple_event_def useRippleHandlers_def ripple_handler_names_def callback_None)

lemma polyfill_keydown_callback:
  "polyfill_keydown cb is_disabled disableSpacebarClick event =
     callback cb @ polyfill_keydown None is_disabled disableSpacebarClick event"
  by (simp add: polyfill_keydown_def useKeyboardClickPolyfill_def polyfill_handleKeyDown_def
      callback_None)

lemma polyfill_keydown_internal:
  "list_all internal (polyfill_keydown None is_disabled disableSpacebarClick event)"
  by (simp add: polyfill_keydown_def useKeyboardClickPolyfill_def polyfill_handleKeyDown_def
      callback_None Let_def)

lemma isHoverModeable_unmerged: "isHoverModeable (unmerged p) = isHoverModeable p"
  by (simp add: isHoverModeable_def unmerged_def split: option.split)

lemma mergable_unmerged: "mergable (unmerged p) name = None"
  by (simp add: unmerged_def)

lemma delay_unmerged:
  "delay (unmerged p) = delay p" "hoverModeDelay (unmerged p) = hoverModeDelay p"
  by (simp_all add: unmerged_def)

lemma timerDelay_unmerged: "timerDelay (unmerged p) t = timerDelay p t"
  by (cases t) (simp_all add: isHoverModeable_unmerged delay_unmerged)

lemma perform_unmerged: "perform (unmerged p) x s = perform p x s"
  by (cases x) (simp_all add: timeout_start_def timerDelay_unmerged)

lemma fold_perform_unmerged: "fold (perform (unmerged p)) xs s = fold (perform p) xs s"
  by (induction xs arbitrary: s) (simp_all add: perform_unmerged)

lemma fold_perform_callback: "fold (perform p) (callback cb) s = s"
  by (simp add: callback_def split: option.split)

lemma event_effects_supplied:
  "event_effects p s e = callback (supplied p e) @ event_effects (unmerged p) s e"
proof (cases e)
  case (Timeout t)
  then show ?thesis
    by (cases t)
      (simp_all add: supplied_def callback_None mouseTimeout_def isHoverModeable_unmerged)
qed (simp_all add: supplied_def mergable_unmerged callback_None handleMouseEnter_def
      handleMouseLeave_def handleFocus_def handleBlur_def handleKeyDown_def
      handleTouchStart_def handleTouchMove_def handleContextMenu_def isHoverModeable_unmerged)

lemma event_effects_unmerged_internal: "list_all internal (event_effects (unmerged p) s e)"
proof (cases e)
  case (Timeout t)
  then show ?thesis
    by (cases t) (simp_all add: mouseTimeout_def keyboardTimeout_def touchTimeout_def)
qed (simp_all add: mergable_unmerged callback_None handleMouseEnter_def handleMouseLeave_def
      handleFocus_def handleBlur_def handleKeyDown_def handleTouchStart_def handleTouchMove_def
      handleContextMenu_def handleWindowBlur_def animationFrame_def touchendListenerCallback_def)

lemma trace_touchEffect: "trace (touchEffect s) = trace s"
  by (simp add: touchEffect_def Let_def)

lemma trace_step: "trace (step p e s) = trace s @ event_effects p s e"
  by (simp add: step_def Let_def trace_touchEffect)

lemma step_unmerged: "(step p e s)\<lparr>trace := []\<rparr> = (step (unmerged p) e s)\<lparr>trace := []\<rparr>"
proof -
  have f: "fold (perform p) (event_effects p s e) (arrive e s)
         = fold (perform p) (event_effects (unmerged p) s e) (arrive e s)"
    by (subst event_effects_supplied) (simp add: fold_perform_callback)
  show ?thesis
    unfolding step_def Let_def fold_perform_unmerged f [symmetric]
    by (simp add: touchEffect_def Let_def)
qed

text \<open>
  Claim C4. In every handler returned by the tooltip hooks, by the ripple hook and by the
  keyboard click polyfill, a handler supplied by the caller is the first thing that
  runs: the effects of the event begin with its call, everything after it is the hook's
  own transition, and the trace of the widget grows in that order.
\<close>

theorem callers_handler_runs_first:
  "(supplied p e = Some h \<longrightarrow>
      (\<exists>rest. event_effects p s e = Callback h # rest \<and> list_all internal rest
            \<and> rest = event_effects (unmerged p) s e
            \<and> trace (step p e s) = trace s @ Callback h # rest))
   \<and> (name \<in> set ripple_handler_names \<and> handlers opts name = Some h \<longrightarrow>
      (\<exists>rest. ripple_event opts name targetIsActive = Callback h # rest
            \<and> list_all internal rest))
   \<and> (\<exists>rest. polyfill_keydown (Some h) is_disabled disableSpacebarClick event
              = Callback h # rest
            \<and> list_all internal rest)"
proof (intro conjI impI)
  assume "supplied p e = Some h"
  then have "event_effects p s e = Callback h # event_effects (unmerged p) s e"
    using event_effects_supplied [of p s e] by (simp add: callback_Some)
  then show "\<exists>rest. event_effects p s e = Callback h # rest \<and> list_all internal rest
            \<and> rest = event_effects (unmerged p) s e
            \<and> trace (step p e s) = trace s @ Callback h # rest"
    by (simp add: event_effects_unmerged_internal trace_step)
next
  assume "name \<in> set ripple_handler_names \<and> handlers opts name = Some h"
  then have "ripple_event opts name targetIsActive
      = Callback h # ripple_event (opts\<lparr>handlers := (\<lambda>name. None)\<rparr>) name targetIsActive"
    using ripple_event_callback [of opts name targetIsActive] by (simp add: callback_Some)
  then show "\<exists>rest. ripple_event opts name targetIsActive = Callback h # rest
            \<and> list_all internal rest"
    by (simp add: ripple_event_internal)
next
  have "polyfill_keydown (Some h) is_disabled disableSpacebarClick event
      = Callback h # polyfill_keydown None is_disabled disableSpacebarClick event"
    using polyfill_keydown_callback [of "Some h" is_disabled disableSpacebarClick event]
    by (simp add: callback_Some)
  then show "\<exists>rest. polyfill_keydown (Some h) is_disabled disableSpacebarClick event
              = Callback h # rest
            \<and> list_all internal rest"
    by (simp add: polyfill_keydown_internal)
qed


theorem callers_handler_runs_first_witness:
  "supplied ((plainProps 3)\<lparr>mergable := (\<lambda>name. Some ''h'')\<rparr>) MouseEnter = Some ''h''
   \<and> event_effects ((plainProps 3)\<lparr>mergable := (\<lambda>name. Some ''h'')\<rparr>) (initial ''mouse'')
        MouseEnter
       = [Callback ''h'', SetInitiated (Some ''mouse''), SetEstimatedPosition, Start MouseTimer]
   \<and> OnMouseDown \<in> set ripple_handler_names
   \<and> handlers ((rippleOptions :: (string, string, string ripple list) Options)
        \<lparr>handlers := (\<lambda>name. Some ''h'')\<rparr>) OnMouseDown = Some ''h''
   \<and> ripple_event ((rippleOptions :: (string, string, string ripple list) Options)
        \<lparr>handlers := (\<lambda>name. Some ''h'')\<rparr>) OnMouseDown False = [Callback ''h'', Create]
   \<and> polyfill_keydown (Some ''h'') False False \<lparr>key = ''Enter'', tagName = ''DIV''\<rparr>
       = [Callback ''h'', StopPropagation, Click]"
proof -
  have a: "supplied ((plainProps 3)\<lparr>mergable := (\<lambda>name. Some ''h'')\<rparr>) MouseEnter = Some ''h''"
    by (simp add: supplied_def)
  have b: "OnMouseDown \<in> set ripple_handler_names
     \<and> handlers ((rippleOptions :: (string, string, string ripple list) Options)
        \<lparr>handlers := (\<lambda>name. Some ''h'')\<rparr>) OnMouseDown = Some ''h''"
    by (simp add: ripple_handler_names_def)
  from callers_handler_runs_first [of "(plainProps 3)\<lparr>mergable := (\<lambda>name. Some ''h'')\<rparr>"
      MouseEnter "''h''" "initial ''mouse''" OnMouseDown
      "(rippleOptions :: (string, string, string ripple list) Options)
         \<lparr>handlers := (\<lambda>name. Some ''h'')\<rparr>"
      False False False "\<lparr>key = ''Enter'', tagName = ''DIV''\<rparr>"] a b
  show ?thesis
    by (simp add: handleMouseEnter_def initial_def callback_Some callback_None
        mergable_unmerged ripple_event_def useRippleHandlers_def ripple_handler_names_def
        rippleOptions_def polyfill_keydown_def useKeyboardClickPolyfill_def
        polyfill_handleKeyDown_def)
qed

lemma ripple_perform_handlers:
  "ripple_perform (opts\<lparr>handlers := hs\<rparr>) ev x r = ripple_perform opts ev x r"
  by (cases x) simp_all

lemma fold_ripple_perform_handlers:
  "fold (ripple_perform (opts\<lparr>handlers := hs\<rparr>) ev) xs r = fold (ripple_perform opts ev) xs r"
  by (induction xs arbitrary: r) (simp_all add: ripple_perform_handlers)

lemma ripple_process_callback:
  "ripple_process opts name targetIsActive ev r =
     ripple_process (opts\<lparr>handlers := (\<lambda>name. None)\<rparr>) name targetIsActive ev r"
proof -
  have "ripple_process opts name targetIsActive ev r =
      fold (ripple_perform opts ev)
        (ripple_event (opts\<lparr>handlers := (\<lambda>name. None)\<rparr>) name targetIsActive) r"
    unfolding ripple_process_def
    by (simp only: ripple_event_callback [of opts name targetIsActive] fold_append o_apply
        fold_ripple_callback)
  then show ?thesis
    by (simp add: ripple_process_def fold_ripple_perform_handlers)
qed

text \<open>
  Claim C5. The call of the caller's handler is guarded by a presence check: without a
  handler nothing is called. Whether or not a handler is supplied, the hook's own effects
  are the same, and so is the state they lead to: the tooltip state but for the recorded
  trace, and the ripple state. This holds for the tooltip handlers, the ripple handlers
  and the keyboard click polyfill.
\<close>

theorem callers_handler_is_optional:
  "callback None = []
   \<and> event_effects p s e = callback (supplied p e) @ event_effects (unmerged p) s e
   \<and> list_all internal (event_effects (unmerged p) s e)
   \<and> (step p e s)\<lparr>trace := []\<rparr> = (step (unmerged p) e s)\<lparr>trace := []\<rparr>
   \<and> ripple_event opts name targetIsActive =
       callback (if name \<in> set ripple_handler_names then handlers opts name else None)
       @ ripple_event (opts\<lparr>handlers := (\<lambda>name. None)\<rparr>) name targetIsActive
   \<and> list_all internal (ripple_event (opts\<lparr>handlers := (\<lambda>name. None)\<rparr>) name targetIsActive)
   \<and> ripple_process opts name targetIsActive ev r =
       ripple_process (opts\<lparr>handlers := (\<lambda>name. None)\<rparr>) name targetIsActive ev r
   \<and> polyfill_keydown cb is_disabled disableSpacebarClick event =
       callback cb @ polyfill_keydown None is_disabled disableSpacebarClick event
   \<and> list_all internal (polyfill_keydown None is_disabled disableSpacebarClick event)"
  by (intro conjI callback_None event_effects_supplied event_effects_unmerged_internal
      step_unmerged ripple_event_callback ripple_event_internal ripple_process_callback
      polyfill_keydown_callback polyfill_keydown_internal)


section \<open>Ripples\<close>

lemma ripple_process_create:
  assumes "name \<in> {OnKeyDown, OnMouseDown, OnTouchStart, OnClick}"
  shows "(\<forall>r. ripple_process opts name targetIsActive ev r = create opts ev r)
       \<or> (\<forall>r. ripple_process opts name targetIsActive ev r = r)"
  using assms
  by (auto simp add: ripple_process_def ripple_event_def useRippleHandlers_def Let_def
      ripple_handler_names_def fold_ripple_callback)

lemma ripple_process_release:
  assumes "name \<in> {OnKeyUp, OnMouseUp, OnTouchEnd}"
  shows "(\<forall>r. ripple_process opts name targetIsActive ev r = release opts ev r)
       \<or> (\<forall>r. ripple_process opts name targetIsActive ev r = r)"
  using assms
  by (auto simp add: ripple_process_def ripple_event_def useRippleHandlers_def Let_def
      ripple_handler_names_def fold_ripple_callback)

text \<open>
  The handlers add nothing of their own to the ripple state: a down or up event is one call
  of the caller's \<^verbatim>\<open>create\<close> or \<^verbatim>\<open>release\<close>, or none, so processing an event twice is
  processing it once whenever these two are idempotent.
\<close>

lemma ripple_process_idempotent:
  assumes "\<forall>r. create opts ev (create opts ev r) = create opts ev r"
    and "\<forall>r. release opts ev (release opts ev r) = release opts ev r"
    and "name \<in> {OnKeyDown, OnMouseDown, OnTouchStart, OnClick, OnKeyUp, OnMouseUp, OnTouchEnd}"
  shows "ripple_process opts name targetIsActive ev
           (ripple_process opts name targetIsActive ev r)
         = ripple_process opts name targetIsActive ev r"
proof -
  from assms(3) consider
    "name \<in> {OnKeyDown, OnMouseDown, OnTouchStart, OnClick}"
    | "name \<in> {OnKeyUp, OnMouseUp, OnTouchEnd}"
    by auto
  then show ?thesis
  proof cases
    case 1
    from ripple_process_create [OF 1, of opts targetIsActive ev] assms(1)
    show ?thesis by auto
  next
    case 2
    from ripple_process_release [OF 2, of opts targetIsActive ev] assms(2)
    show ?thesis by auto
  qed
qed

lemma createRipple_idempotent: "createRipple ev (createRipple ev rs) = createRipple ev rs"
  by (simp add: createRipple_def)

lemma releaseRipple_idempotent: "releaseRipple ev (releaseRipple ev rs) = releaseRipple ev rs"
  by (simp add: releaseRipple_def)

text \<open>
  Claim C6. With the ripple state of the hook that supplies \<^verbatim>\<open>create\<close> and \<^verbatim>\<open>release\<close>,
  processing the same down event (keydown, mousedown, touchstart, or a click) or the same
  up event (keyup, mouseup, touchend) twice through the handlers returned by
  \<^verbatim>\<open>useRippleHandlers\<close> leaves the ripple state that processing it once leaves, whatever
  the flags and the caller's handlers are.
\<close>

theorem ripple_create_release_idempotent:
  assumes "create opts = createRipple" and "release opts = releaseRipple"
    and "name \<in> {OnKeyDown, OnMouseDown, OnTouchStart, OnClick, OnKeyUp, OnMouseUp, OnTouchEnd}"
  shows "ripple_process opts name targetIsActive ev
           (ripple_process opts name targetIsActive ev rs)
         = ripple_process opts name targetIsActive ev rs"
  using assms(3)
  by (intro ripple_process_idempotent)
    (simp_all add: assms(1,2) createRipple_idempotent releaseRipple_idempotent)

theorem ripple_create_release_idempotent_witness:
  "create (rippleOptions :: (string, string, string ripple list) Options) = createRipple
   \<and> release (rippleOptions :: (string, string, string ripple list) Options) = releaseRipple
   \<and> OnMouseDown
       \<in> {OnKeyDown, OnMouseDown, OnTouchStart, OnClick, OnKeyUp, OnMouseUp, OnTouchEnd}
   \<and> OnMouseUp
       \<in> {OnKeyDown, OnMouseDown, OnTouchStart, OnClick, OnKeyUp, OnMouseUp, OnTouchEnd}
   \<and> ripple_process (rippleOptions :: (string, string, string ripple list) Options)
        OnMouseDown False ''down'' [] = [\<lparr>startedBy = ''down'', holding = True\<rparr>]
   \<and> ripple_process (rippleOptions :: (string, string, string ripple list) Options)
        OnMouseDown False ''down''
        (ripple_process (rippleOptions :: (string, string, string ripple list) Options)
           OnMouseDown False ''down'' [])
      = [\<lparr>startedBy = ''down'', holding = True\<rparr>]
   \<and> ripple_process (rippleOptions :: (string, string, string ripple list) Options)
        OnMouseUp False ''up'' [\<lparr>startedBy = ''down'', holding = True\<rparr>]
      = [\<lparr>startedBy = ''down'', holding = False\<rparr>]
   \<and> ripple_process (rippleOptions :: (string, string, string ripple list) Options)
        OnMouseUp False ''up''
        (ripple_process (rippleOptions :: (string, string, string ripple list) Options)
           OnMouseUp False ''up''
           [\<lparr>startedBy = ''down'', holding = True\<rparr>])
      = [\<lparr>startedBy = ''down'', holding = False\<rparr>]"
proof -
  have a: "create (rippleOptions :: (string, string, string ripple list) Options)
      = createRipple"
    "release (rippleOptions :: (string, string, string ripple list) Options) = releaseRipple"
    by (simp_all add: rippleOptions_def)
  have n: "OnMouseDown
      \<in> {OnKeyDown, OnMouseDown, OnTouchStart, OnClick, OnKeyUp, OnMouseUp, OnTouchEnd}"
    "OnMouseUp
      \<in> {OnKeyDown, OnMouseDown, OnTouchStart, OnClick, OnKeyUp, OnMouseUp, OnTouchEnd}"
    by simp_all
  have d: "ripple_process (rippleOptions :: (string, string, string ripple list) Options)
        OnMouseDown False ''down'' [] = [\<lparr>startedBy = ''down'', holding = True\<rparr>]"
    by (simp add: ripple_process_def ripple_event_def useRippleHandlers_def
        ripple_handler_names_def rippleOptions_def callback_None createRipple_def)
  have u: "ripple_process (rippleOptions :: (string, string, string ripple list) Options)
        OnMouseUp False ''up'' [\<lparr>startedBy = ''down'', holding = True\<rparr>]
      = [\<lparr>startedBy = ''down'', holding = False\<rparr>]"
    by (simp add: ripple_process_def ripple_event_def useRippleHandlers_def
        ripple_handler_names_def rippleOptions_def callback_None releaseRipple_def)
  from ripple_create_release_idempotent [OF a n(1), of False "''down''" "[]"]
    ripple_create_release_idempotent [OF a n(2), of False "''up''"
      "[\<lparr>startedBy = ''down'', holding = True\<rparr>]"]
    a d u
  show ?thesis by simp
qed

text \<open>
  Claim C9. When \<^verbatim>\<open>disabled\<close> or \<^verbatim>\<open>disableRipple\<close> is set, the hook returns the caller's own
  handler under every one of its nine names, no event creates, releases or cancels a
  ripple through the returned handlers, and the ripple state stays as it is. The same
  holds for \<^verbatim>\<open>onClick\<close> when \<^verbatim>\<open>disableProgrammaticRipple\<close> is set.
\<close>

theorem disabled_ripple_returns_callers_handlers:
  "(disabled opts \<or> disableRipple opts \<longrightarrow>
      (\<forall>name \<in> set ripple_handler_names.
          useRippleHandlers opts name = Some (Provided (handlers opts name)))
      \<and> Create \<notin> set (ripple_event opts name targetIsActive)
      \<and> Release \<notin> set (ripple_event opts name targetIsActive)
      \<and> (\<forall>ease. Cancel ease \<notin> set (ripple_event opts name targetIsActive))
      \<and> ripple_process opts name targetIsActive ev r = r)
   \<and> (disableProgrammaticRipple opts \<longrightarrow>
      useRippleHandlers opts OnClick = Some (Provided (handlers opts OnClick))
      \<and> ripple_event opts OnClick targetIsActive = callback (handlers opts OnClick)
      \<and> ripple_process opts OnClick targetIsActive ev r = r)"
proof (intro conjI impI)
  assume d: "disabled opts \<or> disableRipple opts"
  show "\<forall>name \<in> set ripple_handler_names.
          useRippleHandlers opts name = Some (Provided (handlers opts name))"
    using d by (auto simp add: useRippleHandlers_def Let_def)
  show "Create \<notin> set (ripple_event opts name targetIsActive)"
    "Release \<notin> set (ripple_event opts name targetIsActive)"
    "\<forall>ease. Cancel ease \<notin> set (ripple_event opts name targetIsActive)"
    using d by (simp_all add: ripple_event_disabled callback_no_ripple)
  show "ripple_process opts name targetIsActive ev r = r"
    using d by (simp add: ripple_process_def ripple_event_disabled fold_ripple_callback)
next
  assume d: "disableProgrammaticRipple opts"
  show c: "useRippleHandlers opts OnClick = Some (Provided (handlers opts OnClick))"
    using d by (simp add: useRippleHandlers_def Let_def ripple_handler_names_def)
  show e: "ripple_event opts OnClick targetIsActive = callback (handlers opts OnClick)"
    using c by (simp add: ripple_event_def)
  show "ripple_process opts OnClick targetIsActive ev r = r"
    using e by (simp add: ripple_process_def fold_ripple_callback)
qed

theorem disabled_ripple_returns_callers_handlers_witness:
  "(disabled ((rippleOptions :: (string, string, string ripple list) Options)
        \<lparr>handlers := (\<lambda>name. Some ''h''), disabled := True,
         disableProgrammaticRipple := True\<rparr>)
     \<or> disableRipple ((rippleOptions :: (string, string, string ripple list) Options)
        \<lparr>handlers := (\<lambda>name. Some ''h''), disabled := True,
         disableProgrammaticRipple := True\<rparr>))
   \<and> disableProgrammaticRipple ((rippleOptions :: (string, string, string ripple list) Options)
        \<lparr>handlers := (\<lambda>name. Some ''h''), disabled := True,
         disableProgrammaticRipple := True\<rparr>)
   \<and> useRippleHandlers ((rippleOptions :: (string, string, string ripple list) Options)
        \<lparr>handlers := (\<lambda>name. Some ''h''), disabled := True,
         disableProgrammaticRipple := True\<rparr>) OnMouseDown = Some (Provided (Some ''h''))
   \<and> ripple_event ((rippleOptions :: (string, string, string ripple list) Options)
        \<lparr>handlers := (\<lambda>name. Some ''h''), disabled := True,
         disableProgrammaticRipple := True\<rparr>) OnMouseDown False = [Callback ''h'']
   \<and> ripple_process ((rippleOptions :: (string, string, string ripple list) Options)
        \<lparr>handlers := (\<lambda>name. Some ''h''), disabled := True,
         disableProgrammaticRipple := True\<rparr>) OnMouseDown False ''down'' [] = []
   \<and> ripple_process ((rippleOptions :: (string, string, string ripple list) Options)
        \<lparr>handlers := (\<lambda>name. Some ''h''), disabled := True,
         disableProgrammaticRipple := True\<rparr>) OnClick False ''click'' [] = []"
  using disabled_ripple_returns_callers_handlers
    [of "(rippleOptions :: (string, string, string ripple list) Options)
        \<lparr>handlers := (\<lambda>name. Some ''h''), disabled := True,
         disableProgrammaticRipple := True\<rparr>" OnMouseDown False "''down''" "[]"]
    disabled_ripple_returns_callers_handlers
    [of "(rippleOptions :: (string, string, string ripple list) Options)
        \<lparr>handlers := (\<lambda>name. Some ''h''), disabled := True,
         disableProgrammaticRipple := True\<rparr>" OnMouseDown False "''click''" "[]"]
  by (simp add: ripple_process_def ripple_event_def useRippleHandlers_def
      ripple_handler_names_def rippleOptions_def callback_Some)


section \<open>The keyboard click polyfill\<close>

text \<open>
  Claim C10. The merged handler calls the caller's \<^verbatim>\<open>onKeyDown\<close> and then clicks the
  element exactly when the key is Enter or Space, the element is not a \<^verbatim>\<open>BUTTON\<close>, it is
  not Space on an \<^verbatim>\<open>A\<close> element, and it is not Space with \<^verbatim>\<open>disableSpacebarClick\<close>; the click
  comes with \<^verbatim>\<open>stopPropagation\<close>, and with \<^verbatim>\<open>preventDefault\<close> for Space only. For any other
  keydown nothing happens beyond the caller's handler. When \<^verbatim>\<open>disabled\<close>, the hook returns
  the given \<^verbatim>\<open>onKeyDown\<close> (or \<^verbatim>\<open>undefined\<close>) unchanged.
\<close>

theorem keyboard_click_polyfill:
  "useKeyboardClickPolyfill cb False disableSpacebarClick = Merged
   \<and> polyfill_keydown cb False disableSpacebarClick event =
     callback cb @
     (if (key event = ''Enter'' \<or> key event = '' '') \<and> tagName event \<noteq> ''BUTTON''
         \<and> \<not> (tagName event = ''A'' \<and> key event = '' '')
         \<and> \<not> (key event = '' '' \<and> disableSpacebarClick)
      then (if key event = '' '' then [PreventDefault] else []) @ [StopPropagation, Click]
      else [])
   \<and> useKeyboardClickPolyfill cb True disableSpacebarClick = Provided cb
   \<and> polyfill_keydown cb True disableSpacebarClick event = callback cb"
  by (auto simp add: polyfill_keydown_def useKeyboardClickPolyfill_def
      polyfill_handleKeyDown_def Let_def)



section \<open>Tooltips: timers, showing and hiding\<close>

lemmas perform_defs =
  showTooltip_def hideTooltip_def setInitiated_def timeout_start_def timeout_stop_def

lemmas handler_defs =
  handleMouseEnter_def handleMouseLeave_def handleFocus_def handleBlur_def handleKeyDown_def
  handleTouchStart_def handleTouchMove_def handleContextMenu_def handleWindowBlur_def
  animationFrame_def touchendListenerCallback_def mouseTimeout_def keyboardTimeout_def
  touchTimeout_def

lemmas tooltip_eval =
  run_def step_def Let_def initial_def plainProps_def touchEffect_def timeout_tick_def
  timeout_due_def isHoverModeable_def callback_None callback_Some ticks_def
  perform_defs handler_defs

lemma event_effects_Timeout:
  "event_effects p s (Timeout t) =
     (if timeout_due t s
      then (case t of MouseTimer \<Rightarrow> mouseTimeout p s | KeyboardTimer \<Rightarrow> keyboardTimeout s
            | TouchTimer \<Rightarrow> touchTimeout)
      else [])"
  by (cases t) simp_all

lemma pending_set_timer: "pending t (set_timer t' v s) = (if t = t' then v else pending t s)"
  by (cases t; cases t') simp_all

lemma pending_touchEffect: "pending t (touchEffect s) = pending t s"
  by (cases t) (simp_all add: touchEffect_def Let_def)

lemma pending_trace_update: "pending t (s\<lparr>trace := tr\<rparr>) = pending t s"
  by (cases t) simp_all

lemma pending_step:
  "pending t (step p e s)
     = pending t (fold (perform p) (event_effects (unmerged p) s e) (arrive e s))"
  by (simp add: step_def Let_def pending_touchEffect pending_trace_update
      event_effects_supplied [of p s e] fold_perform_callback)

lemma timer_not_callback: "Start t \<notin> set (callback cb)" "Stop t \<notin> set (callback cb)"
  by (simp_all add: callback_def split: option.split)

text \<open>
  How one event changes a timer: the event whose handler starts it sets the full delay,
  a millisecond takes one off, and otherwise a pending timeout stays as it was; in the
  last two cases no handler has started or stopped the timer.
\<close>

lemma pending_step_cases:
  assumes "pending t (step p e s) = Some r"
  shows "(e = starter t \<and> Start t \<in> set (event_effects p s e) \<and> r = timerDelay p t)
       \<or> (Start t \<notin> set (event_effects p s e) \<and> Stop t \<notin> set (event_effects p s e)
           \<and> e = Tick \<and> (\<exists>r'. pending t s = Some r' \<and> r = r' - 1))
       \<or> (Start t \<notin> set (event_effects p s e) \<and> Stop t \<notin> set (event_effects p s e)
           \<and> e \<noteq> Tick \<and> pending t s = Some r)"
  using assms
  by (cases t; cases e)
    (auto simp add: timer_not_callback pending_step perform_defs pending_set_timer
      timeout_tick_def handler_defs
      mergable_unmerged callback_None timerDelay_unmerged timeout_due_def event_effects_Timeout
      simp del: event_effects.simps(13-15) split: if_splits timer.splits)

lemma run_snoc: "run p (es @ [e]) s = step p e (run p es s)"
  by (simp add: run_def)

lemma ticks_simps:
  "ticks [] = 0" "ticks (es @ [e]) = ticks es + (if e = Tick then 1 else 0)"
  by (simp_all add: ticks_def)

lemma undisturbed_snoc:
  "undisturbed t p (es @ [e]) s \<longleftrightarrow>
     undisturbed t p es s
     \<and> Start t \<notin> set (event_effects p (run p es s) e)
     \<and> Stop t \<notin> set (event_effects p (run p es s) e)
     \<and> pending t (run p (es @ [e]) s) \<noteq> None"
  by (induction es arbitrary: s) (auto simp add: run_def)

text \<open>
  A pending timeout was started by the handler of its starting event, has run undisturbed
  since, and what is left of its delay is the delay less the milliseconds that have passed
  since.
\<close>

lemma pending_history:
  assumes "pending t s0 = None" and "pending t (run p es s0) = Some r"
  shows "\<exists>es1 es2. es = es1 @ starter t # es2
      \<and> Start t \<in> set (event_effects p (run p es1 s0) (starter t))
      \<and> undisturbed t p es2 (run p (es1 @ [starter t]) s0)
      \<and> r = timerDelay p t - ticks es2"
  using assms(2)
proof (induction es arbitrary: r rule: rev_induct)
  case Nil
  with assms(1) show ?case by (simp add: run_def)
next
  case (snoc e es)
  let ?s = "run p es s0"
  from snoc.prems have r: "pending t (step p e ?s) = Some r"
    by (simp add: run_snoc)
  then consider
      (start) "e = starter t" "Start t \<in> set (event_effects p ?s e)" "r = timerDelay p t"
    | (tick) r' where "Start t \<notin> set (event_effects p ?s e)"
        "Stop t \<notin> set (event_effects p ?s e)" "e = Tick"
        "pending t ?s = Some r'" "r = r' - 1"
    | (keep) "Start t \<notin> set (event_effects p ?s e)"
        "Stop t \<notin> set (event_effects p ?s e)" "e \<noteq> Tick" "pending t ?s = Some r"
    using pending_step_cases by blast
  then show ?case
  proof cases
    case start
    then have "es @ [e] = es @ starter t # []"
      "Start t \<in> set (event_effects p (run p es s0) (starter t))"
      "undisturbed t p [] (run p (es @ [starter t]) s0)"
      "r = timerDelay p t - ticks []"
      by (simp_all add: ticks_simps)
    then show ?thesis by blast
  next
    case tick
    from snoc.IH [OF tick(4)] obtain es1 es2
      where h: "es = es1 @ starter t # es2"
        "Start t \<in> set (event_effects p (run p es1 s0) (starter t))"
        "undisturbed t p es2 (run p (es1 @ [starter t]) s0)"
        "r' = timerDelay p t - ticks es2" by blast
    from h(1) have run: "run p es2 (run p (es1 @ [starter t]) s0) = ?s"
      "run p (es2 @ [e]) (run p (es1 @ [starter t]) s0) = step p e ?s"
      by (simp_all add: run_def)
    from h tick r run have "es @ [e] = es1 @ starter t # (es2 @ [e])"
      "undisturbed t p (es2 @ [e]) (run p (es1 @ [starter t]) s0)"
      "r = timerDelay p t - ticks (es2 @ [e])"
      by (simp_all add: ticks_simps undisturbed_snoc)
    with h(2) show ?thesis by blast
  next
    case keep
    from snoc.IH [OF keep(4)] obtain es1 es2
      where h: "es = es1 @ starter t # es2"
        "Start t \<in> set (event_effects p (run p es1 s0) (starter t))"
        "undisturbed t p es2 (run p (es1 @ [starter t]) s0)"
        "r = timerDelay p t - ticks es2" by blast
    from h(1) have run: "run p es2 (run p (es1 @ [starter t]) s0) = ?s"
      "run p (es2 @ [e]) (run p (es1 @ [starter t]) s0) = step p e ?s"
      by (simp_all add: run_def)
    from h keep r run have "es @ [e] = es1 @ starter t # (es2 @ [e])"
      "undisturbed t p (es2 @ [e]) (run p (es1 @ [starter t]) s0)"
      "r = timerDelay p t - ticks (es2 @ [e])"
      by (simp_all add: ticks_simps undisturbed_snoc)
    with h(2) show ?thesis by blast
  qed
qed

lemma showTooltip_not_callback: "ShowTooltip \<notin> set (callback cb)"
  by (simp add: callback_def split: option.split)

text \<open>The three places that call \<^verbatim>\<open>showTooltip\<close>.\<close>

lemma showTooltip_cases:
  assumes "ShowTooltip \<in> set (event_effects p s e)"
  shows "(e = Timeout MouseTimer \<and> timeout_due MouseTimer s \<and> initiated s = Some ''mouse'')
       \<or> (e = Timeout KeyboardTimer \<and> timeout_due KeyboardTimer s
            \<and> initiated s = Some ''keyboard'')
       \<or> (\<exists>selectionInside. e = ContextMenu selectionInside \<and> mode s = ''touch'' \<and> touched s
            \<and> SetInitiated (Some ''touch'') \<in> set (event_effects p s e))"
  using assms
  by (cases e)
    (auto simp add: showTooltip_not_callback handler_defs event_effects_Timeout
      simp del: event_effects.simps(13-15) split: if_splits timer.splits)

text \<open>
  Claim C2, as the code has it. In the mouse and in the keyboard flow \<^verbatim>\<open>showTooltip\<close> is
  called by the callback of the timeout only, and only if \<^verbatim>\<open>initiated\<close> is still \<^verbatim>\<open>"mouse"\<close>
  (\<^verbatim>\<open>"keyboard"\<close>) at that moment. The timeout was started by the handler of a mouseenter
  (focus) event, has not been started again, stopped or run since, and at least the delay
  given to \<^verbatim>\<open>useTimeout\<close> has passed since that event: the \<^verbatim>\<open>delay\<close> prop, but in the mouse
  flow the delay of the hover mode when the hover mode is on. In the touch flow
  \<^verbatim>\<open>showTooltip\<close> is called by the contextmenu handler itself, in touch mode on a touched
  element, right after \<^verbatim>\<open>setInitiated("touch")\<close> and without any delay. Nothing else calls
  it.
\<close>

theorem showTooltip_only_after_delay:
  assumes "mouseTimer s0 = None" and "keyboardTimer s0 = None"
    and "ShowTooltip \<in> set (event_effects p (run p es s0) e)"
  shows "(e = Timeout MouseTimer \<and> initiated (run p es s0) = Some ''mouse''
          \<and> (\<exists>es1 es2. es = es1 @ MouseEnter # es2
               \<and> Start MouseTimer \<in> set (event_effects p (run p es1 s0) MouseEnter)
               \<and> undisturbed MouseTimer p es2 (run p (es1 @ [MouseEnter]) s0)
               \<and> (if isHoverModeable p then hoverModeDelay p else delay p) \<le> ticks es2))
       \<or> (e = Timeout KeyboardTimer \<and> initiated (run p es s0) = Some ''keyboard''
          \<and> (\<exists>es1 es2. es = es1 @ Focus # es2
               \<and> Start KeyboardTimer \<in> set (event_effects p (run p es1 s0) Focus)
               \<and> undisturbed KeyboardTimer p es2 (run p (es1 @ [Focus]) s0)
               \<and> delay p \<le> ticks es2))
       \<or> (\<exists>selectionInside. e = ContextMenu selectionInside
          \<and> mode (run p es s0) = ''touch'' \<and> touched (run p es s0)
          \<and> SetInitiated (Some ''touch'') \<in> set (event_effects p (run p es s0) e))"
proof -
  let ?s = "run p es s0"
  have hist: "\<exists>es1 es2. es = es1 @ starter t # es2
      \<and> Start t \<in> set (event_effects p (run p es1 s0) (starter t))
      \<and> undisturbed t p es2 (run p (es1 @ [starter t]) s0)
      \<and> timerDelay p t \<le> ticks es2"
    if "pending t s0 = None" "timeout_due t ?s" for t
  proof -
    from that(2) have "pending t ?s = Some 0" by (simp add: timeout_due_def)
    from pending_history [OF that(1) this] show ?thesis by auto
  qed
  from showTooltip_cases [OF assms(3)] show ?thesis
  proof (elim disjE conjE)
    assume "e = Timeout MouseTimer" "timeout_due MouseTimer ?s" "initiated ?s = Some ''mouse''"
    with hist [of MouseTimer] assms(1) show ?thesis by (cases "isHoverModeable p") simp_all
  next
    assume "e = Timeout KeyboardTimer" "timeout_due KeyboardTimer ?s"
      "initiated ?s = Some ''keyboard''"
    with hist [of KeyboardTimer] assms(2) show ?thesis by simp
  next
    assume "\<exists>selectionInside. e = ContextMenu selectionInside \<and> mode ?s = ''touch'' \<and> touched ?s
            \<and> SetInitiated (Some ''touch'') \<in> set (event_effects p ?s e)"
    then show ?thesis by blast
  qed
qed

theorem showTooltip_only_after_delay_witness:
  "mouseTimer (initial ''mouse'' :: unit tooltip) = None
   \<and> keyboardTimer (initial ''mouse'' :: unit tooltip) = None
   \<and> ShowTooltip \<in> set (event_effects (plainProps 3 :: unit TooltipProps)
        (run (plainProps 3) [MouseEnter, Tick, Tick, Tick] (initial ''mouse''))
        (Timeout MouseTimer))
   \<and> initiated (run (plainProps 3 :: unit TooltipProps) [MouseEnter, Tick, Tick, Tick]
        (initial ''mouse'')) = Some ''mouse''
   \<and> (\<exists>es1 es2. [MouseEnter, Tick, Tick, Tick] = es1 @ MouseEnter # es2
        \<and> Start MouseTimer \<in> set (event_effects (plainProps 3 :: unit TooltipProps)
             (run (plainProps 3) es1 (initial ''mouse'')) MouseEnter)
        \<and> undisturbed MouseTimer (plainProps 3 :: unit TooltipProps) es2
             (run (plainProps 3) (es1 @ [MouseEnter]) (initial ''mouse''))
        \<and> (if isHoverModeable (plainProps 3 :: unit TooltipProps)
            then hoverModeDelay (plainProps 3 :: unit TooltipProps)
            else delay (plainProps 3 :: unit TooltipProps)) \<le> ticks es2)
   \<and> \<not> isHoverModeable (plainProps 3 :: unit TooltipProps)
   \<and> delay (plainProps 3 :: unit TooltipProps) = 3
   \<and> ticks [Tick, Tick, Tick] = 3
   \<and> undisturbed MouseTimer (plainProps 3 :: unit TooltipProps) [Tick, Tick, Tick]
        (run (plainProps 3) [MouseEnter] (initial ''mouse''))"
proof -
  have a: "mouseTimer (initial ''mouse'' :: unit tooltip) = None"
    "keyboardTimer (initial ''mouse'' :: unit tooltip) = None"
    by (simp_all add: initial_def)
  have b: "ShowTooltip \<in> set (event_effects (plainProps 3 :: unit TooltipProps)
        (run (plainProps 3) [MouseEnter, Tick, Tick, Tick] (initial ''mouse''))
        (Timeout MouseTimer))"
    by (simp add: tooltip_eval)
  have c: "\<not> isHoverModeable (plainProps 3 :: unit TooltipProps)"
    "delay (plainProps 3 :: unit TooltipProps) = 3"
    "ticks [Tick, Tick, Tick] = 3"
    "undisturbed MouseTimer (plainProps 3 :: unit TooltipProps) [Tick, Tick, Tick]
        (run (plainProps 3) [MouseEnter] (initial ''mouse''))"
    by (simp_all add: tooltip_eval)
  from showTooltip_only_after_delay [OF a b]
  have "initiated (run (plainProps 3 :: unit TooltipProps) [MouseEnter, Tick, Tick, Tick]
        (initial ''mouse'')) = Some ''mouse''
   \<and> (\<exists>es1 es2. [MouseEnter, Tick, Tick, Tick] = es1 @ MouseEnter # es2
        \<and> Start MouseTimer \<in> set (event_effects (plainProps 3 :: unit TooltipProps)
             (run (plainProps 3) es1 (initial ''mouse'')) MouseEnter)
        \<and> undisturbed MouseTimer (plainProps 3 :: unit TooltipProps) es2
             (run (plainProps 3) (es1 @ [MouseEnter]) (initial ''mouse''))
        \<and> (if isHoverModeable (plainProps 3 :: unit TooltipProps)
            then hoverModeDelay (plainProps 3 :: unit TooltipProps)
            else delay (plainProps 3 :: unit TooltipProps)) \<le> ticks es2)"
    by simp
  with a b c show ?thesis by (intro conjI) (elim conjE, assumption)+
qed

text \<open>
  The claim as it is stated fails for the touch flow: with a delay of 1000 milliseconds,
  a touchstart followed by a contextmenu event in touch mode calls \<^verbatim>\<open>showTooltip\<close> and
  the tooltip is visible although no time has passed.
\<close>

theorem touch_shows_without_delay_counterexample:
  "ShowTooltip \<in> set (event_effects (plainProps 1000 :: unit TooltipProps)
       (run (plainProps 1000) [TouchStart] (initial ''touch'')) (ContextMenu False))
   \<and> visible (run (plainProps 1000 :: unit TooltipProps) [TouchStart, ContextMenu False]
       (initial ''touch''))
   \<and> ticks [TouchStart, ContextMenu False] = 0
   \<and> timerDelay (plainProps 1000 :: unit TooltipProps) TouchTimer = 1000"
  by (simp add: tooltip_eval)

text \<open>
  With the hover mode on, the \<^verbatim>\<open>delay\<close> prop does not time the mouse flow: with a delay of
  1000 milliseconds and a hover mode delay of none, the callback of the timeout shows the
  tooltip before any time has passed.
\<close>

lemma hover_mode_delay_times_mouse_flow:
  "ShowTooltip \<in> set (event_effects
       ((plainProps 1000 :: unit TooltipProps)\<lparr>disableHoverMode := Some False\<rparr>)
       (run ((plainProps 1000)\<lparr>disableHoverMode := Some False\<rparr>) [MouseEnter]
          (initial ''mouse''))
       (Timeout MouseTimer))
   \<and> visible (run ((plainProps 1000 :: unit TooltipProps)\<lparr>disableHoverMode := Some False\<rparr>)
       [MouseEnter, Timeout MouseTimer] (initial ''mouse''))
   \<and> ticks [MouseEnter, Timeout MouseTimer] = 0
   \<and> delay ((plainProps 1000 :: unit TooltipProps)\<lparr>disableHoverMode := Some False\<rparr>) = 1000
   \<and> hoverModeDelay ((plainProps 1000 :: unit TooltipProps)\<lparr>disableHoverMode := Some False\<rparr>)
       = 0"
  by (simp add: tooltip_eval)

lemma visible_touchEffect: "visible (touchEffect s) = visible s"
  by (simp add: touchEffect_def Let_def)

text \<open>While a timer is clear, time and attempts to run its callback change nothing.\<close>

lemma step_quiet:
  assumes "pending t s = None" and "e = Tick \<or> e = Timeout t"
  shows "pending t (step p e s) = None \<and> trace (step p e s) = trace s
       \<and> visible (step p e s) = visible s"
  using assms
  by (cases t) (auto simp add: step_def Let_def timeout_due_def timeout_tick_def)

lemma run_quiet:
  assumes "pending t s = None" and "set es \<subseteq> {Tick, Timeout t}"
  shows "pending t (run p es s) = None \<and> trace (run p es s) = trace s
       \<and> visible (run p es s) = visible s"
  using assms
proof (induction es arbitrary: s)
  case Nil
  then show ?case by (simp add: run_def)
next
  case (Cons e es)
  from Cons.prems have e: "e = Tick \<or> e = Timeout t" by simp
  from step_quiet [OF Cons.prems(1) e, of p]
  have q: "pending t (step p e s) = None" "trace (step p e s) = trace s"
    "visible (step p e s) = visible s"
    by simp_all
  from Cons.prems have "set es \<subseteq> {Tick, Timeout t}" by simp
  from Cons.IH [OF q(1) this] q show ?case
    by (simp add: run_def)
qed

lemma stop_event:
  assumes "(e = MouseLeave \<and> t = MouseTimer \<and> mode s \<noteq> ''touch'' \<and> initiated s = Some ''mouse'')
     \<or> (e = Blur \<and> t = KeyboardTimer \<and> mode s = ''keyboard'')
     \<or> (e = KeyDown ''Escape'' \<and> t = KeyboardTimer \<and> mode s = ''keyboard''
          \<and> initiated s = Some ''keyboard'')"
  shows "Stop t \<in> set (event_effects p s e) \<and> pending t (step p e s) = None
       \<and> \<not> visible (step p e s)"
  using assms
  by (cases "isHoverModeable p")
    (auto simp add: step_def Let_def visible_touchEffect pending_touchEffect
      handleMouseLeave_def handleBlur_def handleKeyDown_def fold_perform_callback
      perform_defs pending_set_timer)

text \<open>
  Claim C7. A mouseleave event while the tooltip is initiated by the mouse, a blur
  event, and an Escape keydown while it is initiated by the keyboard each stop the timer
  of their flow, and that clears it: however much time passes afterwards and however
  often the event loop turns to this timer, its callback does not run, nothing at all is
  called, and the tooltip stays hidden.
\<close>

theorem stop_cancels_pending_show:
  assumes "(e = MouseLeave \<and> t = MouseTimer \<and> mode s \<noteq> ''touch'' \<and> initiated s = Some ''mouse'')
     \<or> (e = Blur \<and> t = KeyboardTimer \<and> mode s = ''keyboard'')
     \<or> (e = KeyDown ''Escape'' \<and> t = KeyboardTimer \<and> mode s = ''keyboard''
          \<and> initiated s = Some ''keyboard'')"
    and "set es \<subseteq> {Tick, Timeout t}"
  shows "Stop t \<in> set (event_effects p s e)
       \<and> pending t (step p e s) = None
       \<and> pending t (run p es (step p e s)) = None
       \<and> trace (run p es (step p e s)) = trace (step p e s)
       \<and> \<not> visible (run p es (step p e s))"
proof -
  from stop_event [OF assms(1), of p]
  have s: "Stop t \<in> set (event_effects p s e)" "pending t (step p e s) = None"
    "\<not> visible (step p e s)"
    by simp_all
  from run_quiet [OF s(2) assms(2), of p] s show ?thesis by simp
qed

theorem stop_cancels_pending_show_witness:
  "mode (run (plainProps 3 :: unit TooltipProps) [MouseEnter, Tick] (initial ''mouse''))
     \<noteq> ''touch''
   \<and> initiated (run (plainProps 3 :: unit TooltipProps) [MouseEnter, Tick] (initial ''mouse''))
     = Some ''mouse''
   \<and> pending MouseTimer
       (run (plainProps 3 :: unit TooltipProps) [MouseEnter, Tick] (initial ''mouse''))
     = Some 2
   \<and> set [Tick, Tick, Tick, Timeout MouseTimer] \<subseteq> {Tick, Timeout MouseTimer}
   \<and> pending MouseTimer (step (plainProps 3) MouseLeave
        (run (plainProps 3 :: unit TooltipProps) [MouseEnter, Tick] (initial ''mouse'')))
     = None
   \<and> trace (run (plainProps 3) [Tick, Tick, Tick, Timeout MouseTimer]
        (step (plainProps 3) MouseLeave
          (run (plainProps 3 :: unit TooltipProps) [MouseEnter, Tick] (initial ''mouse''))))
     = [SetInitiated (Some ''mouse''), SetEstimatedPosition, Start MouseTimer,
        Stop MouseTimer, HideTooltip]
   \<and> \<not> visible (run (plainProps 3) [Tick, Tick, Tick, Timeout MouseTimer]
        (step (plainProps 3) MouseLeave
          (run (plainProps 3 :: unit TooltipProps) [MouseEnter, Tick] (initial ''mouse''))))"
proof -
  let ?s = "run (plainProps 3 :: unit TooltipProps) [MouseEnter, Tick] (initial ''mouse'')"
  have a: "(MouseLeave = MouseLeave \<and> MouseTimer = MouseTimer \<and> mode ?s \<noteq> ''touch''
        \<and> initiated ?s = Some ''mouse'')
     \<or> (MouseLeave = Blur \<and> MouseTimer = KeyboardTimer \<and> mode ?s = ''keyboard'')
     \<or> (MouseLeave = KeyDown ''Escape'' \<and> MouseTimer = KeyboardTimer \<and> mode ?s = ''keyboard''
          \<and> initiated ?s = Some ''keyboard'')"
    by (simp add: tooltip_eval)
  have b: "set [Tick, Tick, Tick, Timeout MouseTimer] \<subseteq> {Tick, Timeout MouseTimer}"
    by simp
  have c: "mode ?s \<noteq> ''touch''" "initiated ?s = Some ''mouse''" "pending MouseTimer ?s = Some 2"
    by (simp_all add: tooltip_eval)
  have d: "trace (step (plainProps 3) MouseLeave ?s)
     = [SetInitiated (Some ''mouse''), SetEstimatedPosition, Start MouseTimer,
        Stop MouseTimer, HideTooltip]"
    by (simp add: tooltip_eval)
  from stop_cancels_pending_show [OF a b, of "plainProps 3"] show ?thesis
    using b c d by simp
qed

lemma initiated_set_timer: "initiated (set_timer t v s) = initiated s"
  by (cases t) simp_all

lemma initiated_fold_perform:
  assumes "initiated s \<in> A" and "None \<in> A"
    and "\<forall>v. SetInitiated v \<in> set effs \<longrightarrow> v \<in> A"
  shows "initiated (fold (perform p) effs s) \<in> A"
  using assms
proof (induction effs arbitrary: s)
  case Nil
  then show ?case by simp
next
  case (Cons x effs)
  have "initiated (perform p x s) \<in> A"
    using Cons.prems by (cases x) (auto simp add: perform_defs initiated_set_timer)
  with Cons show ?case by simp
qed

lemma setInitiated_not_callback: "SetInitiated v \<notin> set (callback cb)"
  by (simp add: callback_def split: option.split)

lemma setInitiated_values:
  assumes "SetInitiated v \<in> set (event_effects p s e)"
  shows "v \<in> {Some ''mouse'', Some ''keyboard'', Some ''touch''}"
  using assms
  by (cases e)
    (auto simp add: setInitiated_not_callback event_effects_Timeout handler_defs
      simp del: event_effects.simps(13-15) split: if_splits timer.splits)

lemma initiated_arrive: "initiated (arrive e s) = initiated s"
  by (cases e) (simp_all add: timeout_tick_def initiated_set_timer)

lemma initiated_touchEffect: "initiated (touchEffect s) = initiated s"
  by (simp add: touchEffect_def Let_def)

lemma initiated_step:
  assumes "initiated s \<in> TooltipInitiated"
  shows "initiated (step p e s) \<in> TooltipInitiated"
proof -
  have n: "None \<in> TooltipInitiated"
    by (simp add: TooltipInitiated_def)
  have v: "\<forall>v. SetInitiated v \<in> set (event_effects p s e) \<longrightarrow> v \<in> TooltipInitiated"
    using setInitiated_values [of _ p s e] by (auto simp add: TooltipInitiated_def)
  from assms have "initiated (arrive e s) \<in> TooltipInitiated"
    by (simp add: initiated_arrive)
  from initiated_fold_perform [OF this n v, of p] show ?thesis
    by (simp add: step_def Let_def initiated_touchEffect)
qed

lemma initiated_run:
  assumes "initiated s \<in> TooltipInitiated"
  shows "initiated (run p es s) \<in> TooltipInitiated"
  using assms
  by (induction es arbitrary: s) (simp_all add: run_def initiated_step)

text \<open>
  Claim C8. Every \<^verbatim>\<open>setInitiated\<close> call of the mouse, keyboard and touch handlers writes
  \<^verbatim>\<open>"mouse"\<close>, \<^verbatim>\<open>"keyboard"\<close> or \<^verbatim>\<open>"touch"\<close>, and \<^verbatim>\<open>initiated\<close>, once it is one of mouse,
  keyboard, touch, window and \<^verbatim>\<open>null\<close>, is one of them after every event and after every
  sequence of events.
\<close>

theorem initiated_stays_in_TooltipInitiated:
  "(SetInitiated v \<in> set (event_effects p s e) \<longrightarrow>
       v \<in> {Some ''mouse'', Some ''keyboard'', Some ''touch''} \<and> v \<in> TooltipInitiated)
   \<and> (initiated s \<in> TooltipInitiated \<longrightarrow>
       initiated (step p e s) \<in> TooltipInitiated
       \<and> initiated (run p es s) \<in> TooltipInitiated)"
  using setInitiated_values [of v p s e] initiated_step [of s p e] initiated_run [of s p es]
  by (auto simp add: TooltipInitiated_def)

theorem initiated_stays_in_TooltipInitiated_witness:
  "SetInitiated (Some ''mouse'') \<in> set (event_effects (plainProps 3 :: unit TooltipProps)
       (initial ''mouse'') MouseEnter)
   \<and> initiated (initial ''mouse'' :: unit tooltip) \<in> TooltipInitiated
   \<and> Some ''mouse'' \<in> TooltipInitiated
   \<and> initiated (step (plainProps 3 :: unit TooltipProps) MouseEnter (initial ''mouse''))
       \<in> TooltipInitiated
   \<and> initiated (run (plainProps 3 :: unit TooltipProps) [MouseEnter, MouseLeave]
       (initial ''mouse'')) \<in> TooltipInitiated"
proof -
  have a: "SetInitiated (Some ''mouse'') \<in> set (event_effects (plainProps 3 :: unit TooltipProps)
       (initial ''mouse'') MouseEnter)"
    by (simp add: tooltip_eval)
  have b: "initiated (initial ''mouse'' :: unit tooltip) \<in> TooltipInitiated"
    by (simp add: initial_def TooltipInitiated_def)
  from initiated_stays_in_TooltipInitiated
    [of "Some ''mouse''" "plainProps 3 :: unit TooltipProps" "initial ''mouse''" MouseEnter
      "[MouseEnter, MouseLeave]"] a b
  show ?thesis by simp
qed

end
